theory Spec2Isabelle
  imports Complex_Main "HOL-Library.Char_ord" "HOL-Library.List_Lexorder"
begin

section \<open>The nilearn workshop notebooks\<close>

text \<open>
  The repository holds two notebooks, \<^verbatim>\<open>Notebooks/intro-to-nilearn.ipynb\<close> and
  \<^verbatim>\<open>Notebooks/classification-example.ipynb\<close>. Their code cells call nilearn, numpy,
  pandas, matplotlib and scikit-learn. The development below has two layers.

  \<^item> The data-carrying cells (boolean indexing of the dataset, pooling of the extracted
    time series, \<^verbatim>\<open>np.unique\<close>, the cross-validation loops, \<^verbatim>\<open>np.fill_diagonal\<close>)
    are functions over lists, maps and a store of arrays. Library estimators whose code is
    not in the repository are parameters of these functions.
  \<^item> The notebooks as programs (the order of statements, the loops, the one
    \<^verbatim>\<open>try\<close>/\<^verbatim>\<open>except\<close>) are values of the type \<open>stmt list\<close>, with a run function
    that yields the trace of executed statements and the outcome.

  Line numbers are those of the \<^verbatim>\<open>.ipynb\<close> files.
\<close>

subsection \<open>Exceptions as values\<close>

datatype py_error = IndexError | ValueError | KeyError | NameError | FloatingPointError

definition bind_err :: "'e + 'a \<Rightarrow> ('a \<Rightarrow> 'e + 'b) \<Rightarrow> 'e + 'b" where
  "bind_err m f = (case m of Inl e \<Rightarrow> Inl e | Inr x \<Rightarrow> f x)"

subsection \<open>Two-dimensional arrays and \<^verbatim>\<open>np.fill_diagonal\<close>\<close>

text \<open>
  A 2-d numpy array: its shape and its elements in row-major order (\<^verbatim>\<open>a.flat\<close>).
\<close>

record 'a ndarray =
  nrows :: nat
  ncols :: nat
  flat :: "'a list"

definition wf_array :: "'a ndarray \<Rightarrow> bool" where
  "wf_array a = (length (flat a) = nrows a * ncols a)"

definition item :: "'a ndarray \<Rightarrow> nat \<Rightarrow> nat \<Rightarrow> 'a" where
  "item a i j = flat a ! (i * ncols a + j)"

text \<open>
  The slice assignment \<^verbatim>\<open>xs[:stop:step] = v\<close>: every index below \<open>stop\<close> that is a
  multiple of \<open>step\<close> receives \<open>v\<close>; a \<open>stop\<close> beyond the end is clipped.
\<close>

definition slice_assign :: "'a list \<Rightarrow> nat \<Rightarrow> nat \<Rightarrow> 'a \<Rightarrow> 'a list" where
  "slice_assign xs stop step v =
     map (\<lambda>k. if k < stop \<and> k mod step = 0 then v else xs ! k) [0..<length xs]"

text \<open>
  \<^verbatim>\<open>np.fill_diagonal(a, val)\<close> on a 2-d array with the default \<^verbatim>\<open>wrap=False\<close>, as numpy
  computes it: \<^verbatim>\<open>step = a.shape[1] + 1\<close>, \<^verbatim>\<open>end = a.shape[1] * a.shape[1]\<close>,
  \<^verbatim>\<open>a.flat[:end:step] = val\<close>. The routine belongs to numpy, not to the repository.
\<close>

definition fill_diagonal :: "'a ndarray \<Rightarrow> 'a \<Rightarrow> 'a ndarray" where
  "fill_diagonal a v =
     (let step = ncols a + 1; stop = ncols a * ncols a
      in a\<lparr>flat := slice_assign (flat a) stop step v\<rparr>)"

subsection \<open>The connectome cells of the first notebook (lines 733 to 784)\<close>

text \<open>
  Arrays are objects in a store; the variable \<^verbatim>\<open>correlation_matrix\<close> holds a reference.
  \<open>displayed\<close> records, for each plotting call, its name and the array it received.
\<close>

record 'a session =
  heap :: "nat \<Rightarrow> 'a ndarray option"
  next_ref :: nat
  correlation_matrix :: "nat option"
  displayed :: "(string \<times> 'a ndarray) list"

definition deref :: "'a session \<Rightarrow> nat option \<Rightarrow> py_error + nat \<times> 'a ndarray" where
  "deref s v =
     (case v of None \<Rightarrow> Inl NameError
      | Some r \<Rightarrow> (case heap s r of None \<Rightarrow> Inl NameError | Some a \<Rightarrow> Inr (r, a)))"

text \<open>
  Line 736, \<^verbatim>\<open>correlation_matrix = correlation_measure.fit_transform([roi_time_series])[0]\<close>:
  the array \<open>m\<close> that the library returns becomes a new object and the variable is bound
  to it.
\<close>

definition compute_correlation_matrix :: "'a ndarray \<Rightarrow> 'a session \<Rightarrow> py_error + 'a session" where
  "compute_correlation_matrix m s =
     Inr (s\<lparr>heap := (heap s)(next_ref s \<mapsto> m), next_ref := Suc (next_ref s),
            correlation_matrix := Some (next_ref s)\<rparr>)"

text \<open>Line 754, \<^verbatim>\<open>np.fill_diagonal(correlation_matrix, 0)\<close>: the object is overwritten.\<close>

definition np_fill_diagonal :: "'a session \<Rightarrow> nat option \<Rightarrow> 'a \<Rightarrow> py_error + 'a session" where
  "np_fill_diagonal s v val =
     bind_err (deref s v) (\<lambda>(r, a). Inr (s\<lparr>heap := (heap s)(r \<mapsto> fill_diagonal a val)\<rparr>))"

text \<open>Lines 756 and 779: the plotting calls read the object the variable refers to.\<close>

definition plot_matrix :: "'a session \<Rightarrow> nat option \<Rightarrow> py_error + 'a session" where
  "plot_matrix s v =
     bind_err (deref s v)
       (\<lambda>(r, a). Inr (s\<lparr>displayed := displayed s @ [(''plotting.plot_matrix'', a)]\<rparr>))"

definition view_connectome :: "'a session \<Rightarrow> nat option \<Rightarrow> py_error + 'a session" where
  "view_connectome s v =
     bind_err (deref s v)
       (\<lambda>(r, a). Inr (s\<lparr>displayed := displayed s @ [(''plotting.view_connectome'', a)]\<rparr>))"

definition connectome_cells :: "'a::zero ndarray \<Rightarrow> 'a session \<Rightarrow> py_error + 'a session" where
  "connectome_cells m s0 =
     bind_err (compute_correlation_matrix m s0) (\<lambda>s1.
     bind_err (np_fill_diagonal s1 (correlation_matrix s1) 0) (\<lambda>s2.
     bind_err (plot_matrix s2 (correlation_matrix s2)) (\<lambda>s3.
     view_connectome s3 (correlation_matrix s3))))"

subsection \<open>Groups, pooled subjects and class labels (second notebook)\<close>

text \<open>
  What the cells use of \<^verbatim>\<open>development_dataset\<close>: the list of functional scans, the list of
  confound files and the column \<^verbatim>\<open>phenotypic['Child_Adult']\<close>. Row \<open>k\<close> of each belongs to
  participant \<open>k\<close>.
\<close>

record ('f, 'c) dataset =
  func :: "'f list"
  confounds :: "'c list"
  phenotypic_Child_Adult :: "string list"

definition wf_dataset :: "('f, 'c) dataset \<Rightarrow> bool" where
  "wf_dataset ds =
     (length (func ds) = length (phenotypic_Child_Adult ds) \<and>
      length (confounds ds) = length (phenotypic_Child_Adult ds))"

text \<open>
  Indexing a numpy array with a boolean array, \<^verbatim>\<open>np.array(xs)[key]\<close>: the elements at the
  positions where the key is true, in order; a key of another length raises.
\<close>

definition bool_index :: "'a list \<Rightarrow> bool list \<Rightarrow> py_error + 'a list" where
  "bool_index xs key =
     (if length key \<noteq> length xs then Inl IndexError
      else Inr (map fst (filter snd (zip xs key))))"

text \<open>
  \<^verbatim>\<open>masker.transform(imgs, confounds=confs)\<close> of the fitted multi-subject masker returns one
  array per image, in the order of the images, and raises \<^verbatim>\<open>ValueError\<close> on an empty
  list of images. What the masker computes from one image and its confounds is the
  parameter \<open>extract\<close>. The cell passes lists of equal length.
\<close>

definition masker_transform ::
  "('f \<Rightarrow> 'c \<Rightarrow> 'ts) \<Rightarrow> 'f list \<Rightarrow> 'c list \<Rightarrow> py_error + 'ts list" where
  "masker_transform extract imgs confs =
     (if imgs = [] then Inl ValueError else Inr (map (\<lambda>(f, c). extract f c) (zip imgs confs)))"

text \<open>Lines 131 to 157; the result is \<^verbatim>\<open>pooled_subjects = adults + children\<close>.\<close>

definition region_signals_extraction ::
  "('f \<Rightarrow> 'c \<Rightarrow> 'ts) \<Rightarrow> ('f, 'c) dataset \<Rightarrow> py_error + 'ts list" where
  "region_signals_extraction extract development_dataset =
     (let child_idx = map (\<lambda>g. g = ''child'') (phenotypic_Child_Adult development_dataset) in
      bind_err (bool_index (func development_dataset) child_idx) (\<lambda>child_func_files.
      bind_err (bool_index (confounds development_dataset) child_idx) (\<lambda>child_confound_files.
      (let adult_idx = map (\<lambda>g. g = ''adult'') (phenotypic_Child_Adult development_dataset) in
      bind_err (bool_index (func development_dataset) adult_idx) (\<lambda>adult_func_files.
      bind_err (bool_index (confounds development_dataset) adult_idx) (\<lambda>adult_confound_files.
      bind_err (masker_transform extract child_func_files child_confound_files) (\<lambda>children.
      bind_err (masker_transform extract adult_func_files adult_confound_files) (\<lambda>adults.
      Inr (adults @ children)))))))))"

text \<open>
  \<^verbatim>\<open>np.unique(ar, return_inverse=True)\<close>: the sorted distinct values, and for every
  element of \<open>ar\<close> its position among them.
\<close>

primrec index_of :: "'a list \<Rightarrow> 'a \<Rightarrow> nat" where
  "index_of [] y = 0"
| "index_of (x # xs) y = (if x = y then 0 else Suc (index_of xs y))"

definition np_unique :: "'a::linorder list \<Rightarrow> 'a list \<times> nat list" where
  "np_unique ar = (let u = sort (remdups ar) in (u, map (index_of u) ar))"

text \<open>
  Lines 447 and 449: \<^verbatim>\<open>groups = list(development_dataset.phenotypic['Child_Adult'])\<close> and
  \<^verbatim>\<open>_, classes = np.unique(groups, return_inverse=True)\<close>. The first component is the
  list of distinct groups that the notebook discards, the second is \<^verbatim>\<open>classes\<close>.
\<close>

definition class_labels :: "('f, 'c) dataset \<Rightarrow> string list \<times> nat list" where
  "class_labels development_dataset =
     (let groups = phenotypic_Child_Adult development_dataset in np_unique groups)"

text \<open>
  Bookkeeping for the statement of the pairing property: the participant (row of the
  dataset) whose scan ends up at each position of \<^verbatim>\<open>pooled_subjects\<close>. It applies the
  selections of \<open>region_signals_extraction\<close> to the row numbers themselves.
\<close>

definition pooled_participants :: "('f, 'c) dataset \<Rightarrow> nat list" where
  "pooled_participants ds =
     (let gs = phenotypic_Child_Adult ds; ids = [0..<length gs];
          children = map fst (filter snd (zip ids (map (\<lambda>g. g = ''child'') gs)));
          adults = map fst (filter snd (zip ids (map (\<lambda>g. g = ''adult'') gs)))
      in adults @ children)"

text \<open>
  The pairing property: the cells succeed, \<^verbatim>\<open>classes\<close> has one entry per pooled
  subject, and at every position \<open>i\<close> the time series is the one extracted from
  participant \<open>who ! i\<close> and the label \<^verbatim>\<open>classes[i]\<close> names that participant's group.
\<close>

definition labels_match :: "('f \<Rightarrow> 'c \<Rightarrow> 'ts) \<Rightarrow> ('f, 'c) dataset \<Rightarrow> bool" where
  "labels_match extract ds =
     (case region_signals_extraction extract ds of
        Inl e \<Rightarrow> False
      | Inr pooled_subjects \<Rightarrow>
          (let (uniq, classes) = class_labels ds; who = pooled_participants ds
           in length who = length pooled_subjects \<and> length classes = length pooled_subjects \<and>
              list_all (\<lambda>i. pooled_subjects ! i = extract (func ds ! (who ! i)) (confounds ds ! (who ! i)) \<and>
                            uniq ! (classes ! i) = phenotypic_Child_Adult ds ! (who ! i))
                [0..<length pooled_subjects]))"

subsection \<open>The cross-validation cells (second notebook, lines 467 to 499)\<close>

text \<open>
  Indexing a numpy array with an array of non-negative integers, as in
  \<^verbatim>\<open>pooled_subjects[train]\<close> and \<^verbatim>\<open>classes[test]\<close>.
\<close>

definition fancy_index :: "'a list \<Rightarrow> nat list \<Rightarrow> py_error + 'a list" where
  "fancy_index xs idx =
     (if list_all (\<lambda>k. k < length xs) idx then Inr (map (\<lambda>k. xs ! k) idx) else Inl IndexError)"

text \<open>
  \<^verbatim>\<open>sklearn.metrics.accuracy_score(y_true, y_pred)\<close> with its defaults is the fraction of
  positions at which the two label vectors agree; vectors of different lengths raise
  \<^verbatim>\<open>ValueError\<close>. For empty vectors the fraction is 0/0, which is no number: the
  model returns the value \<open>FloatingPointError\<close> there instead of a score. The library
  computes in binary floating point; the model computes in the reals.
\<close>

definition accuracy_score :: "nat list \<Rightarrow> nat list \<Rightarrow> py_error + real" where
  "accuracy_score y_true y_pred =
     (if length y_true \<noteq> length y_pred then Inl ValueError
      else if y_true = [] then Inl FloatingPointError
      else Inr (real (length (filter (\<lambda>(t, p). t = p) (zip y_true y_pred)))
                / real (length y_true)))"

text \<open>\<^verbatim>\<open>np.mean\<close> of a list of numbers; the mean of no numbers is again no number.\<close>

definition np_mean :: "real list \<Rightarrow> py_error + real" where
  "np_mean a = (if a = [] then Inl FloatingPointError else Inr (sum_list a / real (length a)))"

text \<open>
  The estimators whose code lives in scikit-learn and nilearn, as parameters:
  \<^verbatim>\<open>cv.split\<close> (the folds, each a pair of index lists),
  \<^verbatim>\<open>ConnectivityMeasure(kind=kind, vectorize=True).fit_transform\<close> (the fitted measure
  and one connectome per subject), its \<^verbatim>\<open>transform\<close>, \<^verbatim>\<open>LinearSVC().fit\<close> and
  \<^verbatim>\<open>classifier.predict\<close>. Each may raise.
\<close>

record ('ts, 'cm, 'x, 'clf) estimators =
  cv_split :: "'ts list \<Rightarrow> nat list \<Rightarrow> py_error + (nat list \<times> nat list) list"
  connectivity_fit_transform :: "string \<Rightarrow> 'ts list \<Rightarrow> py_error + 'cm \<times> 'x list"
  connectivity_transform :: "'cm \<Rightarrow> 'ts list \<Rightarrow> py_error + 'x list"
  classifier_fit :: "'x list \<Rightarrow> nat list \<Rightarrow> py_error + 'clf"
  classifier_predict :: "'clf \<Rightarrow> 'x list \<Rightarrow> py_error + nat list"

text \<open>The body of the inner loop, lines 473 to 482, up to the value that is appended.\<close>

definition fold_score ::
  "('ts, 'cm, 'x, 'clf) estimators \<Rightarrow> string \<Rightarrow> 'ts list \<Rightarrow> nat list \<Rightarrow> nat list \<Rightarrow> nat list
   \<Rightarrow> py_error + real" where
  "fold_score lib kind pooled_subjects classes train test =
     bind_err (fancy_index pooled_subjects train) (\<lambda>train_subjects.
     bind_err (connectivity_fit_transform lib kind train_subjects) (\<lambda>(connectivity, connectomes).
     bind_err (fancy_index classes train) (\<lambda>train_classes.
     bind_err (classifier_fit lib connectomes train_classes) (\<lambda>classifier.
     bind_err (fancy_index pooled_subjects test) (\<lambda>test_subjects.
     bind_err (connectivity_transform lib connectivity test_subjects) (\<lambda>test_connectomes.
     bind_err (classifier_predict lib classifier test_connectomes) (\<lambda>predictions.
     bind_err (fancy_index classes test) (\<lambda>test_classes.
     accuracy_score test_classes predictions))))))))"

text \<open>Line 470, \<^verbatim>\<open>for train, test in cv.split(pooled_subjects, classes)\<close>.\<close>

fun folds_loop ::
  "('ts, 'cm, 'x, 'clf) estimators \<Rightarrow> string \<Rightarrow> 'ts list \<Rightarrow> nat list \<Rightarrow> (nat list \<times> nat list) list
   \<Rightarrow> real list \<Rightarrow> py_error + real list" where
  "folds_loop lib kind pooled_subjects classes [] acc = Inr acc"
| "folds_loop lib kind pooled_subjects classes ((train, test) # rest) acc =
     bind_err (fold_score lib kind pooled_subjects classes train test) (\<lambda>a.
       folds_loop lib kind pooled_subjects classes rest (acc @ [a]))"

text \<open>Line 468, \<^verbatim>\<open>for kind in kinds\<close>, with \<^verbatim>\<open>scores[kind] = []\<close> at its head.\<close>

fun kinds_loop ::
  "('ts, 'cm, 'x, 'clf) estimators \<Rightarrow> 'ts list \<Rightarrow> nat list \<Rightarrow> string list
   \<Rightarrow> (string \<rightharpoonup> real list) \<Rightarrow> py_error + (string \<rightharpoonup> real list)" where
  "kinds_loop lib pooled_subjects classes [] scores = Inr scores"
| "kinds_loop lib pooled_subjects classes (kind # rest) scores =
     bind_err (cv_split lib pooled_subjects classes) (\<lambda>folds.
     bind_err (folds_loop lib kind pooled_subjects classes folds []) (\<lambda>kind_scores.
       kinds_loop lib pooled_subjects classes rest (scores(kind \<mapsto> kind_scores))))"

definition kinds :: "string list" where
  "kinds = [''correlation'', ''partial correlation'', ''tangent'']"

definition cross_validation ::
  "('ts, 'cm, 'x, 'clf) estimators \<Rightarrow> 'ts list \<Rightarrow> nat list \<Rightarrow> py_error + (string \<rightharpoonup> real list)" where
  "cross_validation lib pooled_subjects classes =
     kinds_loop lib pooled_subjects classes kinds Map.empty"

text \<open>Line 498, \<^verbatim>\<open>mean_scores = [np.mean(scores[kind]) for kind in kinds]\<close>.\<close>

fun mean_scores :: "(string \<rightharpoonup> real list) \<Rightarrow> string list \<Rightarrow> py_error + real list" where
  "mean_scores scores [] = Inr []"
| "mean_scores scores (kind # rest) =
     (case scores kind of
        None \<Rightarrow> Inl KeyError
      | Some a \<Rightarrow> bind_err (np_mean a) (\<lambda>m. bind_err (mean_scores scores rest) (\<lambda>ms. Inr (m # ms))))"

definition unit_interval :: "real \<Rightarrow> bool" where
  "unit_interval a = (0 \<le> a \<and> a \<le> 1)"

text \<open>
  What the loops need from the estimators in order to run through, asked of no call
  but those the loops make. For one kind and one fold: the four estimator calls of the
  loop body, on the arguments the body passes them, do not raise, and
  \<^verbatim>\<open>predict\<close> returns one label per test subject.
\<close>

definition fold_calls_ok ::
  "('ts, 'cm, 'x, 'clf) estimators \<Rightarrow> string \<Rightarrow> 'ts list \<Rightarrow> nat list \<Rightarrow> 'ts list \<Rightarrow> bool" where
  "fold_calls_ok lib kind train_subjects train_classes test_subjects =
     (case connectivity_fit_transform lib kind train_subjects of
        Inl e \<Rightarrow> False
      | Inr (connectivity, connectomes) \<Rightarrow>
     (case classifier_fit lib connectomes train_classes of
        Inl e \<Rightarrow> False
      | Inr classifier \<Rightarrow>
     (case connectivity_transform lib connectivity test_subjects of
        Inl e \<Rightarrow> False
      | Inr test_connectomes \<Rightarrow>
     (case classifier_predict lib classifier test_connectomes of
        Inl e \<Rightarrow> False
      | Inr predictions \<Rightarrow> length predictions = length test_subjects))))"

text \<open>
  For the whole cell: the splitter yields at least one fold, every fold has a non-empty
  test part and indexes existing subjects, and the calls of every kind and fold are as
  above.
\<close>

definition estimators_ok ::
  "('ts, 'cm, 'x, 'clf) estimators \<Rightarrow> 'ts list \<Rightarrow> nat list \<Rightarrow> (nat list \<times> nat list) list \<Rightarrow> bool" where
  "estimators_ok lib pooled_subjects classes folds =
     (cv_split lib pooled_subjects classes = Inr folds \<and> folds \<noteq> [] \<and>
      (\<forall>(train, test) \<in> set folds. test \<noteq> [] \<and>
          (\<forall>k \<in> set train \<union> set test. k < length pooled_subjects \<and> k < length classes) \<and>
          (\<forall>kind \<in> set kinds.
             fold_calls_ok lib kind (map (\<lambda>k. pooled_subjects ! k) train)
               (map (\<lambda>k. classes ! k) train) (map (\<lambda>k. pooled_subjects ! k) test))))"

text \<open>\<^verbatim>\<open>scores[kind]\<close> holds \<open>n\<close> values, each in the unit interval.\<close>

definition scored :: "nat \<Rightarrow> (string \<rightharpoonup> real list) \<Rightarrow> string \<Rightarrow> bool" where
  "scored n scores kind = (\<exists>l. scores kind = Some l \<and> length l = n \<and> list_all unit_interval l)"

subsection \<open>The notebooks as programs\<close>

text \<open>
  A code cell is a sequence of statements, a notebook the sequence of its code cells from
  top to bottom. Every statement carries its line in the \<^verbatim>\<open>.ipynb\<close> file. A simple
  statement (\<open>Simple\<close>: an assignment or an expression) lists the functions, constructors
  and methods it calls, in the order of evaluation; a method called on the result of
  another call is named after the class of that result. \<open>Comp\<close> is an assignment
  whose right-hand side is a list comprehension, listed with the calls of its element
  expression. \<open>For\<close> lists the calls of its iterable expression and has a body;
  \<open>Try\<close> has a body and the handler of its bare \<^verbatim>\<open>except:\<close>. \<open>Magic\<close> is an IPython
  magic or help query, \<open>Shell\<close> an IPython shell escape. \<open>Def\<close> is the definition of
  a function or a class, with the name it defines; neither notebook contains one.
\<close>

datatype stmt =
    Import nat string
  | Magic nat string
  | Shell nat string
  | Simple nat "string list"
  | Comp nat "string list"
  | Assert nat "string list"
  | For nat "string list" "stmt list"
  | Try nat "stmt list" "stmt list"
  | Def nat string

definition intro_notebook :: "stmt list" where
  "intro_notebook =
   [Magic 60 ''matplotlib inline'',
    Try 70 [Import 71 ''nilearn''] [Shell 73 ''pip install nilearn'', Import 74 ''nilearn''],
    Simple 75 [],
    Import 100 ''nilearn.datasets'',
    Simple 103 [''print''],
    Import 125 ''nilearn'',
    Simple 126 [''plotting.plot_img''],
    Import 156 ''nilearn'',
    Simple 159 [''datasets.load_mni152_template''],
    Simple 160 [],
    Import 184 ''nilearn'',
    Magic 200 ''?image.smooth_img'',
    Simple 219 [''image.smooth_img''],
    Simple 237 [],
    Simple 257 [''plotting.plot_img''],
    Import 286 ''pandas'',
    Simple 289 [''pd.read_csv''],
    Simple 290 [''data.head''],
    Import 346 ''nilearn'',
    Simple 348 [''datasets.fetch_development_fmri''],
    Simple 349 [''development_dataset.keys''],
    Simple 369 [''len''],
    Import 385 ''nilearn'',
    Simple 387 [''image.load_img''],
    Simple 388 [],
    Import 433 ''nilearn'',
    Simple 435 [''image.mean_img''],
    Simple 436 [''plotting.view_img''],
    Import 467 ''IPython.display'',
    Simple 468 [''Image''],
    Import 514 ''numpy'',
    Simple 516 [''datasets.fetch_atlas_msdl''],
    Simple 517 [''msdl_atlas.keys''],
    Simple 526 [],
    Simple 527 [''len''],
    Simple 529 [''np.unique'', ''print''],
    Simple 546 [''image.load_img''],
    Simple 562 [''plotting.plot_prob_atlas''],
    Import 614 ''nilearn'',
    Simple 616 [''maskers.NiftiMapsMasker'', ''NiftiMapsMasker.fit''],
    Simple 657 [''masker.transform''],
    Simple 658 [],
    Simple 686 [''Image''],
    Import 733 ''nilearn'',
    Simple 735 [''connectome.ConnectivityMeasure''],
    Simple 736 [''correlation_measure.fit_transform''],
    Import 752 ''matplotlib.pyplot'',
    Simple 754 [''np.fill_diagonal''],
    Simple 755 [''plt.figure''],
    Simple 756 [''plotting.plot_matrix''],
    Simple 779 [''plotting.view_connectome''],
    Simple 812 [''pd.read_table'', ''DataFrame.head''],
    Simple 834 [''masker.transform''],
    Simple 846 [''correlation_measure.fit_transform''],
    Simple 848 [''np.fill_diagonal''],
    Simple 849 [''plt.figure''],
    Simple 850 [''plotting.plot_matrix''],
    Simple 873 [''plotting.view_connectome'']]"

definition classification_notebook :: "stmt list" where
  "classification_notebook =
   [Magic 63 ''matplotlib inline'',
    Import 76 ''numpy'',
    Import 77 ''matplotlib.pyplot'',
    Import 78 ''nilearn'',
    Import 79 ''nilearn.connectome'',
    Simple 82 [''datasets.fetch_development_fmri''],
    Simple 83 [''datasets.fetch_atlas_msdl''],
    Simple 86 [''maskers.MultiNiftiMapsMasker'', ''MultiNiftiMapsMasker.fit''],
    Simple 96 [''ConnectivityMeasure''],
    Simple 131 [],
    Simple 132 [''np.array''],
    Simple 133 [''np.array''],
    Simple 134 [],
    Simple 135 [''np.array''],
    Simple 136 [''np.array''],
    Simple 138 [''len'', ''len'', ''print''],
    Simple 155 [''masker.transform''],
    Simple 156 [''masker.transform''],
    Simple 157 [],
    For 173 [] [Assert 174 []],
    Simple 198 [''correlation_measure.fit_transform''],
    Simple 214 [''str.format'', ''print''],
    Simple 231 [],
    Simple 232 [''str.format'', ''print''],
    Simple 248 [''plt.subplots''],
    For 249 [''zip'', ''enumerate''] [Simple 250 [''str.format'', ''plotting.plot_matrix'']],
    Simple 274 [''plotting.view_connectome''],
    Simple 299 [''ConnectivityMeasure''],
    Simple 300 [''partial_correlation_measure.fit_transform''],
    Simple 317 [''plt.subplots''],
    For 318 [''zip'', ''enumerate''] [Simple 319 [''str.format'', ''plotting.plot_matrix'']],
    Simple 342 [''plotting.view_connectome''],
    Simple 369 [''ConnectivityMeasure''],
    Simple 385 [''tangent_measure.fit_transform''],
    Simple 403 [''plt.subplots''],
    For 404 [''zip'', ''enumerate''] [Simple 405 [''str.format'', ''plotting.plot_matrix'']],
    Import 443 ''sklearn.metrics'',
    Import 444 ''sklearn.model_selection'',
    Import 445 ''sklearn.svm'',
    Simple 447 [''list''],
    Simple 448 [],
    Simple 449 [''np.unique''],
    Simple 450 [''StratifiedShuffleSplit''],
    Simple 451 [''np.asarray''],
    Simple 467 [],
    For 468 []
      [Simple 469 [],
       For 470 [''cv.split'']
         [Simple 473 [''ConnectivityMeasure''],
          Simple 475 [''connectivity.fit_transform''],
          Simple 477 [''LinearSVC'', ''LinearSVC.fit''],
          Simple 479 [''connectivity.transform'', ''classifier.predict''],
          Simple 482 [''accuracy_score'', ''list.append'']]],
    Comp 498 [''np.mean''],
    Comp 499 [''np.std''],
    Simple 501 [''plt.figure''],
    Simple 502 [''len'', ''np.arange''],
    Simple 503 [''plt.barh''],
    Comp 504 [''str.replace''],
    Simple 505 [''plt.yticks''],
    Simple 506 [''plt.gca'', ''Axes.grid''],
    Simple 507 [''plt.gca'', ''Axes.set_axisbelow''],
    Simple 508 [''plt.gca'', ''Axes.axvline''],
    Simple 509 [''plt.xlabel''],
    Simple 510 [''plt.tight_layout''],
    Simple 526 []]"

subsection \<open>Running a notebook\<close>

text \<open>
  A run executes the statements in order. Which steps raise is not decided by the
  notebook but by the libraries, the network and the files: the run takes it from
  \<open>fails\<close>, which says for the \<open>k\<close>-th executed step whether it raises, and takes the
  number of iterations of a loop entered after \<open>k\<close> steps from \<open>iters\<close>. The trace
  records every executed step with its line, its calls and whether it raised. A
  \<open>For\<close> statement takes one step for its iterable expression and one step per
  iteration for fetching the next element, recorded as a call of \<^verbatim>\<open>next\<close>, before
  the body. An exception ends the
  enclosing blocks up to a \<open>Try\<close>, whose handler then runs; without one the run ends
  with \<open>Raised\<close> and the line of the raising step.
\<close>

datatype outcome = Finished | Raised nat

record event =
  line :: nat
  calls :: "string list"
  raised :: bool

definition step :: "(nat \<Rightarrow> bool) \<Rightarrow> nat \<Rightarrow> string list \<Rightarrow> event list \<Rightarrow> event list \<times> outcome" where
  "step fails l cs tr =
     (if fails (length tr) then (tr @ [\<lparr>line = l, calls = cs, raised = True\<rparr>], Raised l)
      else (tr @ [\<lparr>line = l, calls = cs, raised = False\<rparr>], Finished))"

fun exec :: "(nat \<Rightarrow> bool) \<Rightarrow> (nat \<Rightarrow> nat) \<Rightarrow> stmt \<Rightarrow> event list \<Rightarrow> event list \<times> outcome"
  and exec_block :: "(nat \<Rightarrow> bool) \<Rightarrow> (nat \<Rightarrow> nat) \<Rightarrow> stmt list \<Rightarrow> event list \<Rightarrow> event list \<times> outcome"
  and exec_loop :: "(nat \<Rightarrow> bool) \<Rightarrow> (nat \<Rightarrow> nat) \<Rightarrow> nat \<Rightarrow> nat \<Rightarrow> stmt list \<Rightarrow> event list \<Rightarrow> event list \<times> outcome"
  where
  "exec fails iters (Import l m) tr = step fails l [] tr"
| "exec fails iters (Magic l m) tr = step fails l [] tr"
| "exec fails iters (Shell l m) tr = step fails l [] tr"
| "exec fails iters (Simple l cs) tr = step fails l cs tr"
| "exec fails iters (Comp l cs) tr = step fails l cs tr"
| "exec fails iters (Assert l cs) tr = step fails l cs tr"
| "exec fails iters (For l cs body) tr =
     (case step fails l cs tr of
        (tr1, Raised e) \<Rightarrow> (tr1, Raised e)
      | (tr1, Finished) \<Rightarrow> exec_loop fails iters (iters (length tr)) l body tr1)"
| "exec fails iters (Try l body handler) tr =
     (case exec_block fails iters body tr of
        (tr1, Raised e) \<Rightarrow> exec_block fails iters handler tr1
      | (tr1, Finished) \<Rightarrow> (tr1, Finished))"
| "exec_block fails iters [] tr = (tr, Finished)"
| "exec_block fails iters (s # ss) tr =
     (case exec fails iters s tr of
        (tr1, Raised e) \<Rightarrow> (tr1, Raised e)
      | (tr1, Finished) \<Rightarrow> exec_block fails iters ss tr1)"
| "exec_loop fails iters 0 l body tr = (tr, Finished)"
| "exec_loop fails iters (Suc n) l body tr =
     (case step fails l [''next''] tr of
        (tr1, Raised e) \<Rightarrow> (tr1, Raised e)
      | (tr1, Finished) \<Rightarrow>
          (case exec_block fails iters body tr1 of
             (tr2, Raised e) \<Rightarrow> (tr2, Raised e)
           | (tr2, Finished) \<Rightarrow> exec_loop fails iters n l body tr2))"
| "exec fails iters (Def l name) tr = step fails l [] tr"

text \<open>Programs without a \<open>Try\<close>, and the shape of what they add to a trace.\<close>

fun no_try :: "stmt \<Rightarrow> bool" and no_try_block :: "stmt list \<Rightarrow> bool" where
  "no_try (Try l body handler) = False"
| "no_try (For l cs body) = no_try_block body"
| "no_try (Import l m) = True"
| "no_try (Magic l m) = True"
| "no_try (Shell l m) = True"
| "no_try (Simple l cs) = True"
| "no_try (Comp l cs) = True"
| "no_try (Assert l cs) = True"
| "no_try (Def l name) = True"
| "no_try_block [] = True"
| "no_try_block (s # ss) = (no_try s \<and> no_try_block ss)"

definition clean :: "event list \<Rightarrow> outcome \<Rightarrow> bool" where
  "clean ev out =
     (case out of
        Finished \<Rightarrow> list_all (\<lambda>e. \<not> raised e) ev
      | Raised l \<Rightarrow> ev \<noteq> [] \<and> raised (last ev) \<and> line (last ev) = l \<and>
                    list_all (\<lambda>e. \<not> raised e) (butlast ev))"

subsection \<open>Loops and branches of a program\<close>

text \<open>The \<open>for\<close> statements with their nesting depth, in the order of the text.\<close>

fun for_loops :: "stmt \<Rightarrow> (nat \<times> nat) list" and for_loops_block :: "stmt list \<Rightarrow> (nat \<times> nat) list" where
  "for_loops (For l cs body) = (l, 0) # map (\<lambda>(l', d). (l', Suc d)) (for_loops_block body)"
| "for_loops (Try l body handler) = for_loops_block body @ for_loops_block handler"
| "for_loops (Import l m) = []"
| "for_loops (Magic l m) = []"
| "for_loops (Shell l m) = []"
| "for_loops (Simple l cs) = []"
| "for_loops (Comp l cs) = []"
| "for_loops (Assert l cs) = []"
| "for_loops (Def l name) = []"
| "for_loops_block [] = []"
| "for_loops_block (s # ss) = for_loops s @ for_loops_block ss"

fun comprehensions :: "stmt \<Rightarrow> nat list" and comprehensions_block :: "stmt list \<Rightarrow> nat list" where
  "comprehensions (Comp l cs) = [l]"
| "comprehensions (For l cs body) = comprehensions_block body"
| "comprehensions (Try l body handler) = comprehensions_block body @ comprehensions_block handler"
| "comprehensions (Import l m) = []"
| "comprehensions (Magic l m) = []"
| "comprehensions (Shell l m) = []"
| "comprehensions (Simple l cs) = []"
| "comprehensions (Assert l cs) = []"
| "comprehensions (Def l name) = []"
| "comprehensions_block [] = []"
| "comprehensions_block (s # ss) = comprehensions s @ comprehensions_block ss"

text \<open>
  The statements that branch: a \<open>Try\<close> (the handler runs or not) and an \<open>Assert\<close>
  (raises or not, by the value of its condition).
\<close>

fun branches :: "stmt \<Rightarrow> stmt list" and branches_block :: "stmt list \<Rightarrow> stmt list" where
  "branches (Try l body handler) = Try l body handler # branches_block body @ branches_block handler"
| "branches (Assert l cs) = [Assert l cs]"
| "branches (For l cs body) = branches_block body"
| "branches (Import l m) = []"
| "branches (Magic l m) = []"
| "branches (Shell l m) = []"
| "branches (Simple l cs) = []"
| "branches (Comp l cs) = []"
| "branches (Def l name) = []"
| "branches_block [] = []"
| "branches_block (s # ss) = branches s @ branches_block ss"

text \<open>The functions and classes a program defines itself.\<close>

fun definitions :: "stmt \<Rightarrow> (nat \<times> string) list"
  and definitions_block :: "stmt list \<Rightarrow> (nat \<times> string) list" where
  "definitions (Def l name) = [(l, name)]"
| "definitions (For l cs body) = definitions_block body"
| "definitions (Try l body handler) = definitions_block body @ definitions_block handler"
| "definitions (Import l m) = []"
| "definitions (Magic l m) = []"
| "definitions (Shell l m) = []"
| "definitions (Simple l cs) = []"
| "definitions (Comp l cs) = []"
| "definitions (Assert l cs) = []"
| "definitions_block [] = []"
| "definitions_block (s # ss) = definitions s @ definitions_block ss"

text \<open>
  How many calls each assignment, expression, comprehension, assertion and loop header
  makes, with its line, in the order of the text.
\<close>

fun call_counts :: "stmt \<Rightarrow> (nat \<times> nat) list"
  and call_counts_block :: "stmt list \<Rightarrow> (nat \<times> nat) list" where
  "call_counts (Simple l cs) = [(l, length cs)]"
| "call_counts (Comp l cs) = [(l, length cs)]"
| "call_counts (Assert l cs) = [(l, length cs)]"
| "call_counts (For l cs body) = (l, length cs) # call_counts_block body"
| "call_counts (Try l body handler) = call_counts_block body @ call_counts_block handler"
| "call_counts (Import l m) = []"
| "call_counts (Magic l m) = []"
| "call_counts (Shell l m) = []"
| "call_counts (Def l name) = []"
| "call_counts_block [] = []"
| "call_counts_block (s # ss) = call_counts s @ call_counts_block ss"

definition lines_with :: "(nat \<Rightarrow> bool) \<Rightarrow> stmt list \<Rightarrow> nat list" where
  "lines_with P nb = map fst (filter (\<lambda>(l, n). P n) (call_counts_block nb))"

subsection \<open>The stages of the connectivity pipeline\<close>

text \<open>
  The calls that belong to the pipeline, by stage: fetching the dataset and the atlas;
  building and fitting the masker; transforming images into region time series;
  computing connectivity matrices; using them, for display or for classification.
  Every other call has no stage.
\<close>

datatype stage = Fetch | Masker | Transform | Connectivity | Use

definition stage_of :: "string \<Rightarrow> stage option" where
  "stage_of c =
     (if c \<in> set [''datasets.fetch_development_fmri'', ''datasets.fetch_atlas_msdl'']
        then Some Fetch
      else if c \<in> set [''maskers.NiftiMapsMasker'', ''NiftiMapsMasker.fit'',
                         ''maskers.MultiNiftiMapsMasker'', ''MultiNiftiMapsMasker.fit'']
        then Some Masker
      else if c \<in> set [''masker.transform'']
        then Some Transform
      else if c \<in> set [''correlation_measure.fit_transform'',
                         ''partial_correlation_measure.fit_transform'',
                         ''tangent_measure.fit_transform'', ''connectivity.fit_transform'',
                         ''connectivity.transform'']
        then Some Connectivity
      else if c \<in> set [''plotting.plot_matrix'', ''plotting.view_connectome'',
                         ''LinearSVC.fit'', ''classifier.predict'', ''accuracy_score'']
        then Some Use
      else None)"

definition stages :: "string list \<Rightarrow> stage list" where
  "stages cs = List.map_filter stage_of cs"

definition trace_stages :: "event list \<Rightarrow> stage list" where
  "trace_stages tr = stages (concat (map calls tr))"

fun rank :: "stage \<Rightarrow> nat" where
  "rank Fetch = 0"
| "rank Masker = 1"
| "rank Transform = 2"
| "rank Connectivity = 3"
| "rank Use = 4"

text \<open>No later stage ever precedes an earlier one: the ranks never decrease.\<close>

definition never_out_of_order :: "stage list \<Rightarrow> bool" where
  "never_out_of_order ss = sorted (map rank ss)"

text \<open>
  The weaker order. A call of a stage needs an earlier call of the stage before it
  (\<open>needs\<close>); fetching comes before any other stage and building the masker before any
  of the last three (\<open>excludes\<close>: the stages that must not have occurred yet).
\<close>

fun needs :: "stage \<Rightarrow> stage list" where
  "needs Fetch = []"
| "needs Masker = [Fetch]"
| "needs Transform = [Masker]"
| "needs Connectivity = [Transform]"
| "needs Use = [Connectivity]"

fun excludes :: "stage \<Rightarrow> stage list" where
  "excludes Fetch = [Masker, Transform, Connectivity, Use]"
| "excludes Masker = [Transform, Connectivity, Use]"
| "excludes Transform = []"
| "excludes Connectivity = []"
| "excludes Use = []"

definition respects_pipeline :: "stage list \<Rightarrow> bool" where
  "respects_pipeline ss =
     list_all (\<lambda>j. list_all (\<lambda>p. p \<in> set (take j ss)) (needs (ss ! j)) \<and>
                   list_all (\<lambda>x. x \<notin> set (take j ss)) (excludes (ss ! j)))
       [0..<length ss]"

text \<open>The same order, checked from left to right with the set of stages seen so far.\<close>

fun in_order :: "stage set \<Rightarrow> stage list \<Rightarrow> bool" where
  "in_order seen [] = True"
| "in_order seen (s # ss) =
     (set (needs s) \<subseteq> seen \<and> set (excludes s) \<inter> seen = {} \<and> in_order (insert s seen) ss)"

text \<open>
  A check of the program text that covers every run: \<open>must\<close> holds the stages that have
  occurred on every path to a statement, \<open>may\<close> those that have occurred on some path.
  A loop body is checked with its own stages in \<open>may\<close>, since it can run again; a handler
  with those of the \<open>Try\<close> body, which can have run in part.
\<close>

fun own_calls :: "stmt \<Rightarrow> string list" where
  "own_calls (Simple l cs) = cs"
| "own_calls (Comp l cs) = cs"
| "own_calls (Assert l cs) = cs"
| "own_calls (For l cs body) = cs"
| "own_calls (Import l m) = []"
| "own_calls (Magic l m) = []"
| "own_calls (Shell l m) = []"
| "own_calls (Try l body handler) = []"
| "own_calls (Def l name) = []"

fun all_calls :: "stmt \<Rightarrow> string list" and all_calls_block :: "stmt list \<Rightarrow> string list" where
  "all_calls (For l cs body) = cs @ all_calls_block body"
| "all_calls (Try l body handler) = all_calls_block body @ all_calls_block handler"
| "all_calls (Simple l cs) = cs"
| "all_calls (Comp l cs) = cs"
| "all_calls (Assert l cs) = cs"
| "all_calls (Import l m) = []"
| "all_calls (Magic l m) = []"
| "all_calls (Shell l m) = []"
| "all_calls (Def l name) = []"
| "all_calls_block [] = []"
| "all_calls_block (s # ss) = all_calls s @ all_calls_block ss"

fun chk_calls :: "stage set \<Rightarrow> stage set \<Rightarrow> stage list \<Rightarrow> bool" where
  "chk_calls must may [] = True"
| "chk_calls must may (s # ss) =
     (set (needs s) \<subseteq> must \<and> set (excludes s) \<inter> may = {} \<and>
      chk_calls (insert s must) (insert s may) ss)"

fun chk :: "stage set \<Rightarrow> stage set \<Rightarrow> stmt \<Rightarrow> bool"
  and chk_block :: "stage set \<Rightarrow> stage set \<Rightarrow> stmt list \<Rightarrow> bool" where
  "chk must may (For l cs body) =
     (chk_calls must may (stages cs) \<and>
      chk_block (must \<union> set (stages cs))
        (may \<union> set (stages cs) \<union> set (stages (all_calls_block body))) body)"
| "chk must may (Try l body handler) =
     (chk_block must may body \<and>
      chk_block must (may \<union> set (stages (all_calls_block body))) handler)"
| "chk must may (Simple l cs) = chk_calls must may (stages cs)"
| "chk must may (Comp l cs) = chk_calls must may (stages cs)"
| "chk must may (Assert l cs) = chk_calls must may (stages cs)"
| "chk must may (Import l m) = True"
| "chk must may (Magic l m) = True"
| "chk must may (Shell l m) = True"
| "chk must may (Def l name) = True"
| "chk_block must may [] = True"
| "chk_block must may (s # ss) =
     (chk must may s \<and>
      chk_block (must \<union> set (stages (own_calls s))) (may \<union> set (stages (all_calls s))) ss)"

subsection \<open>Variables read and assigned\<close>

text \<open>
  For every statement that reads or assigns a variable of the notebook, by its line: the
  variables it reads and the variables it assigns (\<open>Assigns\<close>), or, for a \<^verbatim>\<open>for\<close>
  statement, the variables its iterable expression reads and its targets (\<open>Iterates\<close>).
  A variable is a name that the notebook assigns; names bound by \<^verbatim>\<open>import\<close> and
  built-in names are not listed, nor is the variable of a comprehension. The attribute
  \<^verbatim>\<open>mean_\<close>, which \<^verbatim>\<open>fit_transform\<close> sets on a connectivity measure and a later
  statement reads, is listed as a variable of its own.
\<close>

datatype flow = Assigns "string list" "string list" | Iterates "string list" "string list"

definition intro_names :: "(nat \<times> flow) list" where
  "intro_names =
   [(159, Assigns [] [''mni_template_3mm'']),
    (160, Assigns [''mni_template_3mm''] []),
    (219, Assigns [''mni_template_3mm''] [''smooth_anat_img'']),
    (237, Assigns [''smooth_anat_img''] []),
    (257, Assigns [''smooth_anat_img''] []),
    (289, Assigns [] [''data'']),
    (290, Assigns [''data''] []),
    (348, Assigns [] [''development_dataset'']),
    (349, Assigns [''development_dataset''] []),
    (369, Assigns [''development_dataset''] []),
    (387, Assigns [''development_dataset''] [''img'']),
    (388, Assigns [''img''] []),
    (435, Assigns [''img''] [''mean_image'']),
    (436, Assigns [''mean_image''] []),
    (516, Assigns [] [''msdl_atlas'']),
    (517, Assigns [''msdl_atlas''] []),
    (526, Assigns [''msdl_atlas''] [''msdl_coords'']),
    (527, Assigns [''msdl_coords''] [''n_regions'']),
    (529, Assigns [''n_regions'', ''msdl_atlas''] []),
    (546, Assigns [''msdl_atlas''] []),
    (562, Assigns [''msdl_atlas''] []),
    (616, Assigns [''msdl_atlas''] [''masker'']),
    (657, Assigns [''masker'', ''development_dataset''] [''roi_time_series'']),
    (658, Assigns [''roi_time_series''] []),
    (735, Assigns [] [''correlation_measure'']),
    (736, Assigns [''correlation_measure'', ''roi_time_series''] [''correlation_matrix'']),
    (754, Assigns [''correlation_matrix''] []),
    (755, Assigns [] [''fig'']),
    (756, Assigns [''correlation_matrix'', ''msdl_atlas'', ''fig''] []),
    (779, Assigns [''correlation_matrix'', ''msdl_atlas''] []),
    (812, Assigns [''development_dataset''] []),
    (834, Assigns [''masker'', ''development_dataset''] [''corrected_roi_time_series'']),
    (846, Assigns [''correlation_measure'', ''corrected_roi_time_series'']
            [''corrected_correlation_matrix'']),
    (848, Assigns [''corrected_correlation_matrix''] []),
    (849, Assigns [] [''fig'']),
    (850, Assigns [''corrected_correlation_matrix'', ''msdl_atlas'', ''fig''] []),
    (873, Assigns [''corrected_correlation_matrix'', ''msdl_atlas''] [])]"

definition classification_names :: "(nat \<times> flow) list" where
  "classification_names =
   [(82, Assigns [] [''development_dataset'']),
    (83, Assigns [] [''msdl_atlas'']),
    (86, Assigns [''msdl_atlas''] [''masker'']),
    (96, Assigns [] [''correlation_measure'']),
    (131, Assigns [''development_dataset''] [''child_idx'']),
    (132, Assigns [''development_dataset'', ''child_idx''] [''child_func_files'']),
    (133, Assigns [''development_dataset'', ''child_idx''] [''child_confound_files'']),
    (134, Assigns [''development_dataset''] [''adult_idx'']),
    (135, Assigns [''development_dataset'', ''adult_idx''] [''adult_func_files'']),
    (136, Assigns [''development_dataset'', ''adult_idx''] [''adult_confound_files'']),
    (138, Assigns [''child_func_files'', ''adult_func_files''] []),
    (155, Assigns [''masker'', ''child_func_files'', ''child_confound_files''] [''children'']),
    (156, Assigns [''masker'', ''adult_func_files'', ''adult_confound_files''] [''adults'']),
    (157, Assigns [''adults'', ''children''] [''pooled_subjects'']),
    (173, Iterates [''pooled_subjects''] [''p'']),
    (174, Assigns [''p''] []),
    (198, Assigns [''correlation_measure'', ''children'']
            [''correlation_matrices'', ''correlation_measure.mean_'']),
    (214, Assigns [''correlation_matrices''] []),
    (231, Assigns [''correlation_measure'', ''correlation_measure.mean_'']
            [''mean_correlation_matrix'']),
    (232, Assigns [''mean_correlation_matrix''] []),
    (248, Assigns [] [''_'', ''axes'']),
    (249, Iterates [''correlation_matrices'', ''axes''] [''i'', ''matrix'', ''ax'']),
    (250, Assigns [''matrix'', ''ax'', ''i''] []),
    (274, Assigns [''mean_correlation_matrix'', ''msdl_atlas''] []),
    (299, Assigns [] [''partial_correlation_measure'']),
    (300, Assigns [''partial_correlation_measure'', ''children'']
            [''partial_correlation_matrices'', ''partial_correlation_measure.mean_'']),
    (317, Assigns [] [''_'', ''axes'']),
    (318, Iterates [''partial_correlation_matrices'', ''axes''] [''i'', ''matrix'', ''ax'']),
    (319, Assigns [''matrix'', ''ax'', ''i''] []),
    (342, Assigns [''partial_correlation_measure'', ''partial_correlation_measure.mean_'',
                   ''msdl_atlas''] []),
    (369, Assigns [] [''tangent_measure'']),
    (385, Assigns [''tangent_measure'', ''children''] [''tangent_matrices'']),
    (403, Assigns [] [''_'', ''axes'']),
    (404, Iterates [''tangent_matrices'', ''axes''] [''i'', ''matrix'', ''ax'']),
    (405, Assigns [''matrix'', ''ax'', ''i''] []),
    (447, Assigns [''development_dataset''] [''groups'']),
    (448, Assigns [] [''kinds'']),
    (449, Assigns [''groups''] [''_'', ''classes'']),
    (450, Assigns [] [''cv'']),
    (451, Assigns [''pooled_subjects''] [''pooled_subjects'']),
    (467, Assigns [] [''scores'']),
    (468, Iterates [''kinds''] [''kind'']),
    (469, Assigns [''scores'', ''kind''] []),
    (470, Iterates [''cv'', ''pooled_subjects'', ''classes''] [''train'', ''test'']),
    (473, Assigns [''kind''] [''connectivity'']),
    (475, Assigns [''connectivity'', ''pooled_subjects'', ''train''] [''connectomes'']),
    (477, Assigns [''connectomes'', ''classes'', ''train''] [''classifier'']),
    (479, Assigns [''classifier'', ''connectivity'', ''pooled_subjects'', ''test'']
            [''predictions'']),
    (482, Assigns [''scores'', ''kind'', ''classes'', ''test'', ''predictions''] []),
    (498, Assigns [''scores'', ''kinds''] [''mean_scores'']),
    (499, Assigns [''scores'', ''kinds''] [''scores_std'']),
    (502, Assigns [''kinds''] [''positions'']),
    (503, Assigns [''positions'', ''mean_scores'', ''scores_std''] []),
    (504, Assigns [''kinds''] [''yticks'']),
    (505, Assigns [''positions'', ''yticks''] []),
    (526, Assigns [''scores_std''] [])]"

definition plain_reads :: "(nat \<times> flow) list \<Rightarrow> nat \<Rightarrow> string list" where
  "plain_reads names l = (case map_of names l of Some (Assigns rs ws) \<Rightarrow> rs | _ \<Rightarrow> [])"

definition plain_writes :: "(nat \<times> flow) list \<Rightarrow> nat \<Rightarrow> string list" where
  "plain_writes names l = (case map_of names l of Some (Assigns rs ws) \<Rightarrow> ws | _ \<Rightarrow> [])"

definition loop_reads :: "(nat \<times> flow) list \<Rightarrow> nat \<Rightarrow> string list" where
  "loop_reads names l = (case map_of names l of Some (Iterates rs ts) \<Rightarrow> rs | _ \<Rightarrow> [])"

definition loop_targets :: "(nat \<times> flow) list \<Rightarrow> nat \<Rightarrow> string list" where
  "loop_targets names l = (case map_of names l of Some (Iterates rs ts) \<Rightarrow> ts | _ \<Rightarrow> [])"

text \<open>
  What a step of a run reads and assigns. The step of a loop header reads what the
  iterable expression reads; each \<^verbatim>\<open>next\<close> step assigns the targets. A step that raises
  assigns nothing.
\<close>

definition event_reads :: "(nat \<times> flow) list \<Rightarrow> event \<Rightarrow> string list" where
  "event_reads names ev =
     plain_reads names (line ev) @
     (if calls ev = [''next''] then [] else loop_reads names (line ev))"

definition event_writes :: "(nat \<times> flow) list \<Rightarrow> event \<Rightarrow> string list" where
  "event_writes names ev =
     (if raised ev then []
      else plain_writes names (line ev) @
           (if calls ev = [''next''] then loop_targets names (line ev) else []))"

text \<open>
  Every variable that a step reads has been assigned by an earlier step of the run that
  did not raise.
\<close>

definition bound_before_read :: "(nat \<times> flow) list \<Rightarrow> event list \<Rightarrow> bool" where
  "bound_before_read names tr =
     list_all (\<lambda>j. list_all (\<lambda>n. list_ex (\<lambda>i. n \<in> set (event_writes names (tr ! i))) [0..<j])
                    (event_reads names (tr ! j)))
       [0..<length tr]"

text \<open>The same, checked from left to right with the set of variables assigned so far.\<close>

fun reads_bound :: "(nat \<times> flow) list \<Rightarrow> string set \<Rightarrow> event list \<Rightarrow> bool" where
  "reads_bound names bound [] = True"
| "reads_bound names bound (ev # tr) =
     (set (event_reads names ev) \<subseteq> bound \<and>
      reads_bound names (bound \<union> set (event_writes names ev)) tr)"

text \<open>The lines of the statements that assign a variable.\<close>

definition writers :: "(nat \<times> flow) list \<Rightarrow> string \<Rightarrow> nat list" where
  "writers names n =
     map fst (filter (\<lambda>(l, f). n \<in> set (case f of Assigns rs ws \<Rightarrow> ws | Iterates rs ts \<Rightarrow> ts))
                names)"

text \<open>
  A check of the program text that covers every run: \<open>bound\<close> holds the variables
  assigned on every path to a statement. The targets of a loop are assigned inside its
  body only; what a \<open>Try\<close> assigns is not relied on after it.
\<close>

definition prim_ok :: "(nat \<times> flow) list \<Rightarrow> string set \<Rightarrow> nat \<Rightarrow> bool" where
  "prim_ok names bound l =
     (loop_reads names l = [] \<and> loop_targets names l = [] \<and> set (plain_reads names l) \<subseteq> bound)"

fun sure_names :: "(nat \<times> flow) list \<Rightarrow> stmt \<Rightarrow> string list" where
  "sure_names names (For l cs body) = []"
| "sure_names names (Try l body handler) = []"
| "sure_names names (Import l m) = plain_writes names l"
| "sure_names names (Magic l m) = plain_writes names l"
| "sure_names names (Shell l m) = plain_writes names l"
| "sure_names names (Simple l cs) = plain_writes names l"
| "sure_names names (Comp l cs) = plain_writes names l"
| "sure_names names (Assert l cs) = plain_writes names l"
| "sure_names names (Def l name) = plain_writes names l"

fun chk_names :: "(nat \<times> flow) list \<Rightarrow> string set \<Rightarrow> stmt \<Rightarrow> bool"
  and chk_names_block :: "(nat \<times> flow) list \<Rightarrow> string set \<Rightarrow> stmt list \<Rightarrow> bool" where
  "chk_names names bound (For l cs body) =
     (cs \<noteq> [''next''] \<and> plain_reads names l = [] \<and> plain_writes names l = [] \<and>
      set (loop_reads names l) \<subseteq> bound \<and>
      chk_names_block names (bound \<union> set (loop_targets names l)) body)"
| "chk_names names bound (Try l body handler) =
     (chk_names_block names bound body \<and> chk_names_block names bound handler)"
| "chk_names names bound (Import l m) = prim_ok names bound l"
| "chk_names names bound (Magic l m) = prim_ok names bound l"
| "chk_names names bound (Shell l m) = prim_ok names bound l"
| "chk_names names bound (Simple l cs) = prim_ok names bound l"
| "chk_names names bound (Comp l cs) = prim_ok names bound l"
| "chk_names names bound (Assert l cs) = prim_ok names bound l"
| "chk_names names bound (Def l name) = prim_ok names bound l"
| "chk_names_block names bound [] = True"
| "chk_names_block names bound (s # ss) =
     (chk_names names bound s \<and>
      chk_names_block names (bound \<union> set (sure_names names s)) ss)"

section \<open>Properties\<close>

subsection \<open>\<^verbatim>\<open>np.fill_diagonal\<close> and the connectome cells\<close>

lemma flat_index_bound:
  assumes "i < r" "j < (c::nat)"
  shows "i * c + j < r * c"
proof -
  have "i * c + j < i * c + c" using assms by simp
  also have "\<dots> = Suc i * c" by simp
  also have "\<dots> \<le> r * c" using assms(1) by (intro mult_le_mono1) simp
  finally show ?thesis .
qed

lemma on_diagonal_iff:
  assumes "j < (c::nat)"
  shows "(i * c + j < c * c \<and> (i * c + j) mod (c + 1) = 0) \<longleftrightarrow> (i = j)"
proof
  assume h: "i * c + j < c * c \<and> (i * c + j) mod (c + 1) = 0"
  then have "(c + 1) dvd (i * c + j)" by (simp add: mod_eq_0_iff_dvd)
  then obtain k where k: "i * c + j = k * (c + 1)" by (auto simp: dvd_def mult.commute)
  have lt: "k * (c + 1) < c * c" using h k by simp
  have kc: "k < c"
  proof (rule ccontr)
    assume "\<not> k < c"
    then have "c \<le> k" by simp
    then have "c * (c + 1) \<le> k * (c + 1)" by (intro mult_le_mono1)
    then show False using lt by simp
  qed
  have e: "i * c + j = k * c + k" using k by simp
  have "(i * c + j) div c = i" using assms by simp
  moreover have "(k * c + k) div c = k" using kc by simp
  ultimately have "i = k" using e by simp
  with e show "i = j" by simp
next
  assume ij: "i = j"
  have "j * (c + 1) \<le> (c - 1) * (c + 1)" using assms by (intro mult_le_mono1) simp
  also have "\<dots> < c * c" using assms by (cases c) simp_all
  finally have lt: "j * (c + 1) < c * c" .
  have "i * c + j = j * (c + 1)" using ij by simp
  then show "i * c + j < c * c \<and> (i * c + j) mod (c + 1) = 0"
    using lt by (metis mod_mult_self1_is_0 mult.commute)
qed

lemma item_fill_diagonal:
  assumes "wf_array a" "i < nrows a" "j < ncols a"
  shows "item (fill_diagonal a v) i j = (if i = j then v else item a i j)"
proof -
  have b: "i * ncols a + j < length (flat a)"
    using assms flat_index_bound[of i "nrows a" j "ncols a"] by (simp add: wf_array_def)
  show ?thesis
    using b on_diagonal_iff[OF assms(3), of i]
    by (simp add: item_def fill_diagonal_def slice_assign_def Let_def)
qed

lemma shape_fill_diagonal:
  "nrows (fill_diagonal a v) = nrows a \<and> ncols (fill_diagonal a v) = ncols a \<and>
   (wf_array a \<longrightarrow> wf_array (fill_diagonal a v))"
  by (simp add: fill_diagonal_def slice_assign_def wf_array_def Let_def)

lemma connectome_cells_eq:
  "connectome_cells m s0 =
     Inr (s0\<lparr>heap := (heap s0)(next_ref s0 \<mapsto> fill_diagonal m 0),
             next_ref := Suc (next_ref s0),
             correlation_matrix := Some (next_ref s0),
             displayed := displayed s0 @
               [(''plotting.plot_matrix'', fill_diagonal m 0),
                (''plotting.view_connectome'', fill_diagonal m 0)]\<rparr>)"
  by (simp add: connectome_cells_def compute_correlation_matrix_def np_fill_diagonal_def
      plot_matrix_def view_connectome_def deref_def bind_err_def)

text \<open>
  C10. \<^verbatim>\<open>np.fill_diagonal(correlation_matrix, 0)\<close> overwrites the array that the variable
  refers to: afterwards that same object has 0 at every diagonal position and the entry of
  the \<^verbatim>\<open>fit_transform\<close> output at every other position, its shape is unchanged, and
  \<^verbatim>\<open>plotting.plot_matrix\<close> and \<^verbatim>\<open>plotting.view_connectome\<close> both receive this
  zero-diagonal array.
\<close>

theorem fill_diagonal_in_place:
  assumes "wf_array m"
  shows "\<exists>s. connectome_cells m s0 = Inr s \<and>
           correlation_matrix s = Some (next_ref s0) \<and>
           heap s (next_ref s0) = Some (fill_diagonal m 0) \<and>
           (\<forall>r. r \<noteq> next_ref s0 \<longrightarrow> heap s r = heap s0 r) \<and>
           displayed s = displayed s0 @
             [(''plotting.plot_matrix'', fill_diagonal m 0),
              (''plotting.view_connectome'', fill_diagonal m 0)] \<and>
           nrows (fill_diagonal m 0) = nrows m \<and> ncols (fill_diagonal m 0) = ncols m \<and>
           (\<forall>i < nrows m. \<forall>j < ncols m.
              item (fill_diagonal m 0) i j = (if i = j then 0 else item m i j))"
  using assms by (simp add: connectome_cells_eq item_fill_diagonal shape_fill_diagonal)

theorem fill_diagonal_in_place_witness:
  "wf_array \<lparr>nrows = 2, ncols = 2, flat = [1, 1/2, 1/2, 1 :: real]\<rparr> \<and>
   (\<exists>s. connectome_cells \<lparr>nrows = 2, ncols = 2, flat = [1, 1/2, 1/2, 1 :: real]\<rparr>
           \<lparr>heap = Map.empty, next_ref = 0, correlation_matrix = None, displayed = []\<rparr> = Inr s \<and>
         heap s 0 = Some \<lparr>nrows = 2, ncols = 2, flat = [0, 1/2, 1/2, 0]\<rparr> \<and>
         displayed s =
           [(''plotting.plot_matrix'', \<lparr>nrows = 2, ncols = 2, flat = [0, 1/2, 1/2, 0]\<rparr>),
            (''plotting.view_connectome'', \<lparr>nrows = 2, ncols = 2, flat = [0, 1/2, 1/2, 0]\<rparr>)])"
proof -
  let ?m = "\<lparr>nrows = 2, ncols = 2, flat = [1, 1/2, 1/2, 1 :: real]\<rparr>"
  have w: "wf_array ?m" by (simp add: wf_array_def)
  have f: "fill_diagonal ?m 0 = \<lparr>nrows = 2, ncols = 2, flat = [0, 1/2, 1/2, 0]\<rparr>"
    by (simp add: fill_diagonal_def slice_assign_def upt_conv_Cons)
  show ?thesis
    using w fill_diagonal_in_place[OF w,
        of "\<lparr>heap = Map.empty, next_ref = 0, correlation_matrix = None, displayed = []\<rparr>"]
    unfolding f by auto
qed

subsection \<open>Class labels and the pairing of labels with pooled subjects\<close>

lemma select_map:
  "map fst (filter snd (zip (map f ks) key)) = map f (map fst (filter snd (zip ks key)))"
proof (induction ks arbitrary: key)
  case Nil
  then show ?case by simp
next
  case (Cons k ks)
  then show ?case by (cases key) simp_all
qed

lemma select_nth:
  assumes "length xs = n"
  shows "map fst (filter snd (zip xs key)) =
         map (\<lambda>k. xs ! k) (map fst (filter snd (zip [0..<n] key)))"
proof -
  have "map (\<lambda>k. xs ! k) [0..<n] = xs" using assms map_nth[of xs] by auto
  then show ?thesis using select_map[of "\<lambda>k. xs ! k" "[0..<n]" key] by simp
qed

lemma masker_transform_nth:
  "ks \<noteq> [] \<Longrightarrow>
   masker_transform extract (map (\<lambda>k. fs ! k) ks) (map (\<lambda>k. cs ! k) ks)
   = Inr (map (\<lambda>k. extract (fs ! k) (cs ! k)) ks)"
  by (simp add: masker_transform_def zip_map_map o_def zip_same_conv_map)

lemma select_nonempty:
  assumes "length xs = length gs" "g \<in> set gs" "P g"
  shows "map fst (filter snd (zip xs (map P gs))) \<noteq> []"
proof -
  from assms(2) obtain i where i: "i < length gs" "gs ! i = g" by (auto simp: in_set_conv_nth)
  then have "(xs ! i, P (gs ! i)) \<in> set (zip xs (map P gs))"
    using assms(1) by (auto simp: set_zip)
  with i(2) assms(3) have "\<exists>x \<in> set (zip xs (map P gs)). snd x" by force
  then have "filter snd (zip xs (map P gs)) \<noteq> []" by (simp add: filter_empty_conv)
  then show ?thesis by simp
qed

text \<open>
  Whatever the order of the dataset, when both groups are present position \<open>i\<close> of
  \<^verbatim>\<open>pooled_subjects\<close> holds the time series of participant \<open>pooled_participants ds ! i\<close>.
\<close>

lemma region_signals_extraction_eq:
  assumes "wf_dataset ds"
    and "''adult'' \<in> set (phenotypic_Child_Adult ds)"
    and "''child'' \<in> set (phenotypic_Child_Adult ds)"
  shows "region_signals_extraction extract ds =
         Inr (map (\<lambda>k. extract (func ds ! k) (confounds ds ! k)) (pooled_participants ds))"
proof -
  let ?gs = "phenotypic_Child_Adult ds"
  let ?n = "length ?gs"
  let ?sel = "\<lambda>key. map fst (filter snd (zip [0..<?n] key))"
  have f: "length (func ds) = ?n" and c: "length (confounds ds) = ?n"
    using assms by (simp_all add: wf_dataset_def)
  have bf: "bool_index (func ds) (map P ?gs) = Inr (map (\<lambda>k. func ds ! k) (?sel (map P ?gs)))" for P
    using select_nth[OF f] by (simp add: bool_index_def f)
  have bc: "bool_index (confounds ds) (map P ?gs) = Inr (map (\<lambda>k. confounds ds ! k) (?sel (map P ?gs)))" for P
    using select_nth[OF c] by (simp add: bool_index_def c)
  have na: "?sel (map (\<lambda>g. g = ''adult'') ?gs) \<noteq> []"
    using select_nonempty[of "[0..<?n]" ?gs "''adult''" "\<lambda>g. g = ''adult''"] assms(2) by simp
  have nc: "?sel (map (\<lambda>g. g = ''child'') ?gs) \<noteq> []"
    using select_nonempty[of "[0..<?n]" ?gs "''child''" "\<lambda>g. g = ''child''"] assms(3) by simp
  show ?thesis
    unfolding region_signals_extraction_def Let_def bf bc bind_err_def sum.case
      masker_transform_nth[OF na] masker_transform_nth[OF nc] pooled_participants_def
    by simp
qed

lemma nth_index_of: "x \<in> set u \<Longrightarrow> u ! index_of u x = x"
  by (induction u) auto

lemma index_of_less: "x \<in> set u \<Longrightarrow> index_of u x < length u"
  by (induction u) auto

lemma np_unique_inverse:
  "i < length ar \<Longrightarrow> fst (np_unique ar) ! (snd (np_unique ar) ! i) = ar ! i"
  by (simp add: np_unique_def Let_def nth_index_of)

lemma np_unique_length: "length (snd (np_unique ar)) = length ar"
  by (simp add: np_unique_def Let_def)

lemma adult_less_child: "''adult'' < ''child''"
  by (simp add: less_char_def)

lemma np_unique_two:
  assumes "set groups = {''adult'', ''child''}"
  shows "fst (np_unique groups) = [''adult'', ''child'']"
proof -
  have "set (sort (remdups groups)) = set [''adult'', ''child'']" using assms by simp
  moreover have "sorted [''adult'', ''child'']" "distinct [''adult'', ''child'']"
    using adult_less_child by simp_all
  ultimately have "sort (remdups groups) = [''adult'', ''child'']"
    by (intro sorted_distinct_set_unique) simp_all
  then show ?thesis by (simp add: np_unique_def Let_def)
qed

text \<open>
  C8. When the groups list holds the two values \<^verbatim>\<open>'child'\<close> and \<^verbatim>\<open>'adult'\<close> and no
  other, \<^verbatim>\<open>np.unique(groups, return_inverse=True)\<close> yields exactly two classes,
  \<^verbatim>\<open>'adult'\<close> and \<^verbatim>\<open>'child'\<close>, and \<^verbatim>\<open>classes\<close> has one entry per participant, each 0
  or 1.
\<close>

theorem classes_two_groups:
  assumes "set (phenotypic_Child_Adult ds) = {''adult'', ''child''}"
  shows "length (fst (class_labels ds)) = 2 \<and>
         fst (class_labels ds) = [''adult'', ''child''] \<and>
         length (snd (class_labels ds)) = length (phenotypic_Child_Adult ds) \<and>
         (\<forall>c \<in> set (snd (class_labels ds)). c = 0 \<or> c = 1)"
proof -
  let ?gs = "phenotypic_Child_Adult ds"
  have u: "fst (np_unique ?gs) = [''adult'', ''child'']" using assms by (rule np_unique_two)
  have "\<forall>c \<in> set (snd (np_unique ?gs)). c < 2"
  proof
    fix c assume "c \<in> set (snd (np_unique ?gs))"
    then obtain g where g: "g \<in> set ?gs" "c = index_of (fst (np_unique ?gs)) g"
      by (auto simp: np_unique_def Let_def)
    then have "g \<in> set (fst (np_unique ?gs))" by (simp add: np_unique_def Let_def)
    then have "c < length (fst (np_unique ?gs))" using g(2) index_of_less by metis
    then show "c < 2" using u by simp
  qed
  then have "\<forall>c \<in> set (snd (np_unique ?gs)). c = 0 \<or> c = 1" by auto
  then show ?thesis using u by (simp add: class_labels_def np_unique_length)
qed

theorem classes_two_groups_witness:
  "set (phenotypic_Child_Adult
          \<lparr>func = [''sub-01'', ''sub-02'', ''sub-03''], confounds = [''c1'', ''c2'', ''c3''],
           phenotypic_Child_Adult = [''child'', ''adult'', ''child'']\<rparr>) = {''adult'', ''child''} \<and>
   class_labels
          \<lparr>func = [''sub-01'', ''sub-02'', ''sub-03''], confounds = [''c1'', ''c2'', ''c3''],
           phenotypic_Child_Adult = [''child'', ''adult'', ''child'']\<rparr>
     = ([''adult'', ''child''], [1, 0, 1])"
proof -
  let ?ds = "\<lparr>func = [''sub-01'', ''sub-02'', ''sub-03''], confounds = [''c1'', ''c2'', ''c3''],
           phenotypic_Child_Adult = [''child'', ''adult'', ''child'']\<rparr>"
  have h: "set (phenotypic_Child_Adult ?ds) = {''adult'', ''child''}" by auto
  have s: "snd (class_labels ?ds) = map (index_of (fst (class_labels ?ds))) [''child'', ''adult'', ''child'']"
    by (simp add: class_labels_def np_unique_def Let_def)
  from classes_two_groups[OF h] have "fst (class_labels ?ds) = [''adult'', ''child'']" by blast
  with s have "class_labels ?ds = ([''adult'', ''child''], [1, 0, 1])"
    by (simp add: prod_eq_iff)
  with h show ?thesis by blast
qed

lemma select_all:
  "length xs = n \<Longrightarrow> map fst (filter snd (zip xs (replicate n True))) = xs"
  by (induction xs arbitrary: n) auto

lemma select_none:
  "map fst (filter snd (zip xs (replicate n False))) = []"
proof (induction n arbitrary: xs)
  case 0
  then show ?case by simp
next
  case (Suc n)
  then show ?case by (cases xs) simp_all
qed

lemma pooled_adults_first:
  assumes "phenotypic_Child_Adult ds = replicate na ''adult'' @ replicate nc ''child''"
  shows "pooled_participants ds = [0..<na + nc]"
proof -
  have u: "[0..<na + nc] = [0..<na] @ [na..<na + nc]"
    using upt_add_eq_append[of 0 na nc] by simp
  have z: "zip ([0..<na] @ [na..<na + nc]) (replicate na b1 @ replicate nc b2)
           = zip [0..<na] (replicate na b1) @ zip [na..<na + nc] (replicate nc b2)" for b1 b2 :: bool
    by simp
  show ?thesis
    unfolding pooled_participants_def assms Let_def
    by (simp add: u z select_all select_none del: upt_Suc)
qed

text \<open>
  C3. The only dataset the notebook receives is the one \<^verbatim>\<open>fetch_development_fmri\<close>
  returns: its lists have one entry per participant and its phenotypic table is sorted by
  \<^verbatim>\<open>Child_Adult\<close>, the adults first, then the children, with both groups present. On such
  a dataset the extraction succeeds, \<^verbatim>\<open>pooled_subjects = adults + children\<close> is in the
  order of the table, and for every index \<open>i\<close> the label \<^verbatim>\<open>classes[i]\<close> names the age
  group of the participant whose time series is \<^verbatim>\<open>pooled_subjects[i]\<close>.
\<close>

theorem labels_match_adults_first:
  assumes "wf_dataset ds"
    and "phenotypic_Child_Adult ds = replicate na ''adult'' @ replicate nc ''child''"
    and "0 < na" "0 < nc"
  shows "labels_match extract ds"
proof -
  let ?gs = "phenotypic_Child_Adult ds"
  have ia: "''adult'' \<in> set ?gs" and ic: "''child'' \<in> set ?gs"
    using assms(2,3,4) by simp_all
  have p: "pooled_participants ds = [0..<na + nc]" using assms(2) by (rule pooled_adults_first)
  have l: "length ?gs = na + nc" using assms(2) by simp
  have r: "region_signals_extraction extract ds =
           Inr (map (\<lambda>k. extract (func ds ! k) (confounds ds ! k)) [0..<na + nc])"
    using region_signals_extraction_eq[OF assms(1) ia ic] p by simp
  have "\<forall>i < na + nc. fst (np_unique ?gs) ! (snd (np_unique ?gs) ! i) = ?gs ! i"
    using l by (simp add: np_unique_inverse)
  then show ?thesis
    unfolding labels_match_def class_labels_def Let_def p r sum.case
    by (simp add: case_prod_beta np_unique_length l list_all_iff)
qed

theorem labels_match_adults_first_witness:
  "wf_dataset \<lparr>func = [''sub-01'', ''sub-02'', ''sub-03''], confounds = [''c1'', ''c2'', ''c3''],
               phenotypic_Child_Adult = [''adult'', ''child'', ''child'']\<rparr> \<and>
   [''adult'', ''child'', ''child''] = replicate 1 ''adult'' @ replicate 2 ''child'' \<and>
   (0::nat) < 1 \<and> (0::nat) < 2 \<and>
   labels_match (\<lambda>f c. f @ ''+'' @ c)
     \<lparr>func = [''sub-01'', ''sub-02'', ''sub-03''], confounds = [''c1'', ''c2'', ''c3''],
      phenotypic_Child_Adult = [''adult'', ''child'', ''child'']\<rparr>"
proof -
  let ?ds = "\<lparr>func = [''sub-01'', ''sub-02'', ''sub-03''], confounds = [''c1'', ''c2'', ''c3''],
               phenotypic_Child_Adult = [''adult'', ''child'', ''child'']\<rparr>"
  have w: "wf_dataset ?ds" by (simp add: wf_dataset_def)
  have g: "phenotypic_Child_Adult ?ds = replicate 1 ''adult'' @ replicate 2 ''child''"
    by (simp add: numeral_2_eq_2)
  from labels_match_adults_first[OF w g] w g show ?thesis by simp
qed

text \<open>
  The premise on the order of the table is used: on a table that lists a child before an
  adult, which the fetcher does not return, the pooled list would start with the adult's
  time series while \<^verbatim>\<open>classes[0]\<close> is the label of the child.
\<close>

lemma pairing_depends_on_order:
  "\<not> labels_match (\<lambda>f c. f)
       \<lparr>func = [''sub-01'', ''sub-02''], confounds = [''c1'', ''c2''],
        phenotypic_Child_Adult = [''child'', ''adult'']\<rparr>"
proof -
  let ?ds = "\<lparr>func = [''sub-01'', ''sub-02''], confounds = [''c1'', ''c2''],
        phenotypic_Child_Adult = [''child'', ''adult'']\<rparr>"
  have u: "np_unique [''child'', ''adult''] = ([''adult'', ''child''], [1, 0])"
    by (simp add: np_unique_def less_char_def less_eq_char_def)
  have p: "pooled_participants ?ds = [1, 0]"
    by (simp add: pooled_participants_def)
  have r: "region_signals_extraction (\<lambda>f c. f) ?ds = Inr [''sub-02'', ''sub-01'']"
    by (simp add: region_signals_extraction_def bool_index_def masker_transform_def bind_err_def)
  show ?thesis
    by (simp add: labels_match_def class_labels_def u p r)
qed

subsection \<open>Accuracy scores of the cross-validation\<close>

lemma accuracy_score_range:
  assumes "accuracy_score y_true y_pred = Inr a"
  shows "unit_interval a"
proof -
  let ?hits = "filter (\<lambda>(t, p). t = p) (zip y_true y_pred)"
  from assms have ne: "y_true \<noteq> []" and len: "length y_true = length y_pred"
    and a: "a = real (length ?hits) / real (length y_true)"
    by (auto simp: accuracy_score_def split: if_splits)
  have "length ?hits \<le> length (zip y_true y_pred)" by (rule length_filter_le)
  then have "length ?hits \<le> length y_true" by simp
  moreover have "0 < length y_true" using ne by simp
  ultimately show ?thesis unfolding unit_interval_def a by simp
qed

lemma folds_loop_scores:
  assumes "folds_loop lib kind ps cs folds acc = Inr l"
  shows "length l = length acc + length folds \<and>
         (list_all unit_interval acc \<longrightarrow> list_all unit_interval l)"
  using assms
proof (induction folds arbitrary: acc)
  case Nil
  then show ?case by simp
next
  case (Cons tt rest)
  obtain train test where tt: "tt = (train, test)" by (cases tt)
  from Cons.prems obtain a where a: "fold_score lib kind ps cs train test = Inr a"
    and r: "folds_loop lib kind ps cs rest (acc @ [a]) = Inr l"
    by (auto simp: tt bind_err_def split: sum.splits)
  from a obtain yt yp where "accuracy_score yt yp = Inr a"
    by (auto simp: fold_score_def bind_err_def split: sum.splits prod.splits)
  then have "unit_interval a" by (rule accuracy_score_range)
  with Cons.IH[OF r] show ?case by simp
qed

lemma fold_score_total:
  assumes "estimators_ok lib ps cs folds" "(train, test) \<in> set folds" "kind \<in> set kinds"
  shows "\<exists>a. fold_score lib kind ps cs train test = Inr a"
proof -
  from assms(1,2) have ne: "test \<noteq> []"
    and tr: "\<forall>k \<in> set train. k < length ps \<and> k < length cs"
    and te: "\<forall>k \<in> set test. k < length ps \<and> k < length cs"
    by (auto simp: estimators_ok_def)
  have i1: "fancy_index ps train = Inr (map (\<lambda>k. ps ! k) train)"
    and i2: "fancy_index cs train = Inr (map (\<lambda>k. cs ! k) train)"
    and i3: "fancy_index ps test = Inr (map (\<lambda>k. ps ! k) test)"
    and i4: "fancy_index cs test = Inr (map (\<lambda>k. cs ! k) test)"
    using tr te by (simp_all add: fancy_index_def list_all_iff)
  from assms have fc: "fold_calls_ok lib kind (map (\<lambda>k. ps ! k) train) (map (\<lambda>k. cs ! k) train)
      (map (\<lambda>k. ps ! k) test)"
    by (auto simp: estimators_ok_def)
  obtain cm xs where
    ft: "connectivity_fit_transform lib kind (map (\<lambda>k. ps ! k) train) = Inr (cm, xs)"
    using fc
    by (cases "connectivity_fit_transform lib kind (map (\<lambda>k. ps ! k) train)")
      (auto simp: fold_calls_ok_def)
  obtain clf where fit: "classifier_fit lib xs (map (\<lambda>k. cs ! k) train) = Inr clf"
    using fc ft
    by (cases "classifier_fit lib xs (map (\<lambda>k. cs ! k) train)") (auto simp: fold_calls_ok_def)
  obtain ys where t: "connectivity_transform lib cm (map (\<lambda>k. ps ! k) test) = Inr ys"
    using fc ft fit
    by (cases "connectivity_transform lib cm (map (\<lambda>k. ps ! k) test)")
      (auto simp: fold_calls_ok_def)
  obtain pr where p: "classifier_predict lib clf ys = Inr pr" and lp: "length pr = length test"
    using fc ft fit t
    by (cases "classifier_predict lib clf ys") (auto simp: fold_calls_ok_def)
  have "\<exists>a. accuracy_score (map (\<lambda>k. cs ! k) test) pr = Inr a"
    using ne lp by (simp add: accuracy_score_def)
  then show ?thesis
    by (simp add: fold_score_def bind_err_def i1 i2 i3 i4 ft fit t p)
qed

lemma folds_loop_total:
  assumes "estimators_ok lib ps cs folds" "set fs \<subseteq> set folds" "kind \<in> set kinds"
  shows "\<exists>l. folds_loop lib kind ps cs fs acc = Inr l"
  using assms(2)
proof (induction fs arbitrary: acc)
  case Nil
  then show ?case by simp
next
  case (Cons tt rest)
  obtain train test where tt: "tt = (train, test)" by (cases tt)
  then obtain a where "fold_score lib kind ps cs train test = Inr a"
    using fold_score_total[OF assms(1) _ assms(3), of train test] Cons.prems by auto
  then show ?case using Cons tt by (simp add: bind_err_def)
qed

lemma kinds_loop_scores:
  assumes "estimators_ok lib ps cs folds" "set ks \<subseteq> set kinds"
  shows "\<exists>scores'. kinds_loop lib ps cs ks scores = Inr scores' \<and>
           dom scores' = dom scores \<union> set ks \<and>
           (\<forall>kind \<in> set ks. scored (length folds) scores' kind)"
  using assms(2)
proof (induction ks arbitrary: scores)
  case Nil
  then show ?case by simp
next
  case (Cons kind rest)
  have cv: "cv_split lib ps cs = Inr folds" using assms(1) by (simp add: estimators_ok_def)
  have kk: "kind \<in> set kinds" and rk: "set rest \<subseteq> set kinds" using Cons.prems by simp_all
  obtain l where l: "folds_loop lib kind ps cs folds [] = Inr l"
    using folds_loop_total[OF assms(1) _ kk, of folds "[]"] by auto
  from folds_loop_scores[OF l] have sl: "length l = length folds" "list_all unit_interval l"
    by simp_all
  obtain scores' where k: "kinds_loop lib ps cs rest (scores(kind \<mapsto> l)) = Inr scores'"
    and d: "dom scores' = dom (scores(kind \<mapsto> l)) \<union> set rest"
    and r: "\<forall>k \<in> set rest. scored (length folds) scores' k"
    using Cons.IH[OF rk, of "scores(kind \<mapsto> l)"] by blast
  have "scored (length folds) scores' kind"
  proof (cases "kind \<in> set rest")
    case True
    with r show ?thesis by simp
  next
    case False
    have "kinds_loop lib ps cs rest sc = Inr sc' \<Longrightarrow> k \<notin> set rest \<Longrightarrow> sc' k = sc k"
      for sc sc' k
    proof (induction rest arbitrary: sc)
      case Nil
      then show ?case by simp
    next
      case (Cons x xs)
      then show ?case by (auto simp: bind_err_def split: sum.splits)
    qed
    from this[OF k False] sl show ?thesis by (simp add: scored_def)
  qed
  with k d r show ?case by (auto simp: bind_err_def cv l)
qed

lemma sum_list_unit_interval:
  "list_all unit_interval a \<Longrightarrow> 0 \<le> sum_list a \<and> sum_list a \<le> real (length a)"
  by (induction a) (auto simp: unit_interval_def)

lemma np_mean_range:
  assumes "list_all unit_interval a" "a \<noteq> []"
  shows "\<exists>m. np_mean a = Inr m \<and> unit_interval m"
proof -
  have "0 < real (length a)" using assms(2) by simp
  then show ?thesis
    using sum_list_unit_interval[OF assms(1)] assms(2)
    by (simp add: np_mean_def unit_interval_def)
qed

lemma mean_scores_range:
  assumes "\<forall>kind \<in> set ks. scored n scores kind" "0 < n"
  shows "\<exists>ms. mean_scores scores ks = Inr ms \<and> length ms = length ks \<and> list_all unit_interval ms"
  using assms(1)
proof (induction ks)
  case Nil
  then show ?case by simp
next
  case (Cons kind rest)
  then obtain l where l: "scores kind = Some l" "length l = n" "list_all unit_interval l"
    by (auto simp: scored_def)
  then have "l \<noteq> []" using assms(2) by auto
  with l obtain m where m: "np_mean l = Inr m" "unit_interval m" using np_mean_range by blast
  from Cons obtain ms where "mean_scores scores rest = Inr ms" "length ms = length rest"
    "list_all unit_interval ms" by auto
  with l m show ?case by (simp add: bind_err_def)
qed

text \<open>
  C1. When the estimator calls that the loops make run through (\<open>estimators_ok\<close>), the
  cross-validation cell
  returns a dictionary \<^verbatim>\<open>scores\<close> whose keys are exactly \<^verbatim>\<open>'correlation'\<close>,
  \<^verbatim>\<open>'partial correlation'\<close> and \<^verbatim>\<open>'tangent'\<close>; \<^verbatim>\<open>scores[kind]\<close> holds one accuracy per
  fold, each between 0 and 1; and \<^verbatim>\<open>mean_scores\<close> holds three means, each between 0
  and 1.
\<close>

theorem accuracy_scores_in_unit_interval:
  assumes "estimators_ok lib pooled_subjects classes folds"
  shows "\<exists>scores means.
           cross_validation lib pooled_subjects classes = Inr scores \<and>
           dom scores = {''correlation'', ''partial correlation'', ''tangent''} \<and>
           (\<forall>kind \<in> set kinds. \<exists>l. scores kind = Some l \<and> length l = length folds \<and>
              (\<forall>a \<in> set l. 0 \<le> a \<and> a \<le> 1)) \<and>
           mean_scores scores kinds = Inr means \<and> length means = 3 \<and>
           (\<forall>m \<in> set means. 0 \<le> m \<and> m \<le> 1)"
proof -
  obtain scores where c: "kinds_loop lib pooled_subjects classes kinds Map.empty = Inr scores"
    and d: "dom scores = dom (Map.empty :: string \<rightharpoonup> real list) \<union> set kinds"
    and s: "\<forall>kind \<in> set kinds. scored (length folds) scores kind"
    using kinds_loop_scores[OF assms subset_refl, of Map.empty] by blast
  have "0 < length folds" using assms by (simp add: estimators_ok_def)
  with s obtain means where m: "mean_scores scores kinds = Inr means"
    "length means = length kinds" "list_all unit_interval means"
    using mean_scores_range by blast
  have "dom scores = {''correlation'', ''partial correlation'', ''tangent''}"
    using d by (simp add: kinds_def)
  moreover have "\<forall>kind \<in> set kinds. \<exists>l. scores kind = Some l \<and> length l = length folds \<and>
              (\<forall>a \<in> set l. 0 \<le> a \<and> a \<le> 1)"
    using s by (auto simp: scored_def list_all_iff unit_interval_def)
  moreover have "length means = 3" using m(2) by (simp add: kinds_def)
  moreover have "\<forall>m \<in> set means. 0 \<le> m \<and> m \<le> 1"
    using m(3) by (auto simp: list_all_iff unit_interval_def)
  ultimately show ?thesis using c m(1) by (auto simp: cross_validation_def)
qed

theorem accuracy_scores_in_unit_interval_witness:
  "estimators_ok
     \<lparr>cv_split = (\<lambda>ps cs. if length ps \<noteq> length cs \<or> length ps < 4 then Inl ValueError
                           else Inr [([0, 1], [2, 3]), ([2, 3], [0, 1])]),
      connectivity_fit_transform = (\<lambda>kind xs. if xs = [] then Inl ValueError else Inr ((), xs)),
      connectivity_transform = (\<lambda>cm xs. if xs = [] then Inl ValueError else Inr xs),
      classifier_fit = (\<lambda>xs ls. if length xs \<noteq> length ls \<or> length (remdups ls) < 2
                                  then Inl ValueError else Inr ()),
      classifier_predict = (\<lambda>clf xs. Inr (map (\<lambda>x. if x = 2 then 1 else x mod 2) xs))\<rparr>
     [0, 1, 2, 3 :: nat] [0, 1, 0, 1] [([0, 1], [2, 3]), ([2, 3], [0, 1])] \<and>
   (\<exists>scores means.
      cross_validation
        \<lparr>cv_split = (\<lambda>ps cs. if length ps \<noteq> length cs \<or> length ps < 4 then Inl ValueError
                              else Inr [([0, 1], [2, 3]), ([2, 3], [0, 1])]),
         connectivity_fit_transform = (\<lambda>kind xs. if xs = [] then Inl ValueError else Inr ((), xs)),
         connectivity_transform = (\<lambda>cm xs. if xs = [] then Inl ValueError else Inr xs),
         classifier_fit = (\<lambda>xs ls. if length xs \<noteq> length ls \<or> length (remdups ls) < 2
                                     then Inl ValueError else Inr ()),
         classifier_predict = (\<lambda>clf xs. Inr (map (\<lambda>x. if x = 2 then 1 else x mod 2) xs))\<rparr>
        [0, 1, 2, 3 :: nat] [0, 1, 0, 1] = Inr scores \<and>
      scores ''tangent'' = Some [1 / 2, 1] \<and>
      dom scores = {''correlation'', ''partial correlation'', ''tangent''} \<and>
      mean_scores scores kinds = Inr means \<and> length means = 3 \<and>
      (\<forall>m \<in> set means. 0 \<le> m \<and> m \<le> 1))"
proof -
  let ?lib = "\<lparr>cv_split = (\<lambda>ps cs. if length ps \<noteq> length cs \<or> length ps < 4 then Inl ValueError
                           else Inr [([0, 1], [2, 3]), ([2, 3], [0, 1])]),
      connectivity_fit_transform = (\<lambda>kind xs. if xs = [] then Inl ValueError else Inr ((), xs)),
      connectivity_transform = (\<lambda>cm xs. if xs = [] then Inl ValueError else Inr xs),
      classifier_fit = (\<lambda>xs ls. if length xs \<noteq> length ls \<or> length (remdups ls) < 2
                                  then Inl ValueError else Inr ()),
      classifier_predict = (\<lambda>clf xs. Inr (map (\<lambda>x. if x = 2 then 1 else x mod 2) xs))\<rparr>
      :: (nat, unit, nat, unit) estimators"
  let ?folds = "[([0, 1], [2, 3]), ([2, 3], [0, 1])] :: (nat list \<times> nat list) list"
  have ok: "estimators_ok ?lib [0, 1, 2, 3] [0, 1, 0, 1] ?folds"
    by (simp add: estimators_ok_def fold_calls_ok_def kinds_def)
  have cvs: "cv_split ?lib [0, 1, 2, 3] [0, 1, 0, 1] = Inr ?folds"
    by simp
  have f1: "fold_score ?lib kind [0, 1, 2, 3] [0, 1, 0, 1] [0, 1] [2, 3] = Inr (1 / 2)" for kind
    by (simp add: fold_score_def bind_err_def fancy_index_def accuracy_score_def)
  have f2: "fold_score ?lib kind [0, 1, 2, 3] [0, 1, 0, 1] [2, 3] [0, 1] = Inr 1" for kind
    by (simp add: fold_score_def bind_err_def fancy_index_def accuracy_score_def)
  have cv: "cross_validation ?lib [0, 1, 2, 3] [0, 1, 0, 1] =
      Inr [''correlation'' \<mapsto> [1 / 2, 1], ''partial correlation'' \<mapsto> [1 / 2, 1],
           ''tangent'' \<mapsto> [1 / 2, 1]]"
    unfolding cross_validation_def kinds_def kinds_loop.simps cvs bind_err_def
      sum.case folds_loop.simps f1 f2 append.simps
    by (rule refl)
  from accuracy_scores_in_unit_interval[OF ok] obtain scores means where
    all: "cross_validation ?lib [0, 1, 2, 3] [0, 1, 0, 1] = Inr scores \<and>
      dom scores = {''correlation'', ''partial correlation'', ''tangent''} \<and>
      (\<forall>kind \<in> set kinds. \<exists>l. scores kind = Some l \<and>
          length l = length ?folds \<and> (\<forall>a \<in> set l. 0 \<le> a \<and> a \<le> 1)) \<and>
      mean_scores scores kinds = Inr means \<and> length means = 3 \<and>
      (\<forall>m \<in> set means. 0 \<le> m \<and> m \<le> 1)"
    by (elim exE) (rule that)
  note c = all[THEN conjunct1]
  note d = all[THEN conjunct2, THEN conjunct1]
  note m = all[THEN conjunct2, THEN conjunct2, THEN conjunct2]
  have "scores = [''correlation'' \<mapsto> [1 / 2, 1], ''partial correlation'' \<mapsto> [1 / 2, 1],
           ''tangent'' \<mapsto> [1 / 2, 1]]"
    using c cv by simp
  then have "scores ''tangent'' = Some [1 / 2, 1]" by simp
  with c d m[THEN conjunct1] m[THEN conjunct2, THEN conjunct1] m[THEN conjunct2, THEN conjunct2]
  have "\<exists>scores means.
      cross_validation ?lib [0, 1, 2, 3] [0, 1, 0, 1] = Inr scores \<and>
      scores ''tangent'' = Some [1 / 2, 1] \<and>
      dom scores = {''correlation'', ''partial correlation'', ''tangent''} \<and>
      mean_scores scores kinds = Inr means \<and> length means = 3 \<and>
      (\<forall>m \<in> set means. 0 \<le> m \<and> m \<le> 1)"
    by (intro exI[of _ scores] exI[of _ means] conjI)
  with ok show ?thesis by (rule conjI)
qed

subsection \<open>Exceptions in a run\<close>

lemma clean_Nil: "clean [] Finished"
  by (simp add: clean_def)

lemma clean_append: "clean ev1 Finished \<Longrightarrow> clean ev2 out \<Longrightarrow> clean (ev1 @ ev2) out"
  by (cases out) (auto simp: clean_def butlast_append)

lemma step_clean: "step fails l cs tr = (tr', out) \<Longrightarrow> \<exists>ev. tr' = tr @ ev \<and> clean ev out"
  by (auto simp: step_def clean_def split: if_splits)

text \<open>
  A program without \<open>Try\<close> only appends to the trace, and what it appends has no raising
  step, or exactly one, the last, whose exception is the outcome.
\<close>

lemma exec_clean:
  "no_try s \<Longrightarrow> exec fails iters s tr = (tr', out) \<Longrightarrow> \<exists>ev. tr' = tr @ ev \<and> clean ev out"
  "no_try_block ss \<Longrightarrow> exec_block fails iters ss tr = (tr', out) \<Longrightarrow> \<exists>ev. tr' = tr @ ev \<and> clean ev out"
  "no_try_block body \<Longrightarrow> exec_loop fails iters n l body tr = (tr', out) \<Longrightarrow> \<exists>ev. tr' = tr @ ev \<and> clean ev out"
proof (induction fails iters s tr and fails iters ss tr and fails iters n l body tr
    arbitrary: tr' out and tr' out and tr' out rule: exec_exec_block_exec_loop.induct)
  case (7 fails iters l cs body tr)
  obtain tr1 o1 where s: "step fails l cs tr = (tr1, o1)" by (cases "step fails l cs tr")
  then obtain ev1 where e1: "tr1 = tr @ ev1" "clean ev1 o1" using step_clean by blast
  show ?case
  proof (cases o1)
    case Finished
    with "7.prems" s have "exec_loop fails iters (iters (length tr)) l body tr1 = (tr', out)" by simp
    with "7.IH"[OF s[symmetric, unfolded Finished] refl] "7.prems"(1) Finished
    obtain ev2 where "tr' = tr1 @ ev2" "clean ev2 out" by auto
    with e1 Finished show ?thesis by (auto intro: clean_append)
  next
    case (Raised e)
    with "7.prems" s e1 show ?thesis by auto
  qed
next
  case (8 fails iters l body handler tr)
  then show ?case by simp
next
  case (9 fails iters tr)
  then show ?case by (auto intro: clean_Nil)
next
  case (10 fails iters s ss tr)
  obtain tr1 o1 where s: "exec fails iters s tr = (tr1, o1)" by (cases "exec fails iters s tr")
  with "10.IH"(1) "10.prems"(1) obtain ev1 where e1: "tr1 = tr @ ev1" "clean ev1 o1" by auto
  show ?case
  proof (cases o1)
    case Finished
    with "10.prems" s have "exec_block fails iters ss tr1 = (tr', out)" by simp
    with "10.IH"(2)[OF s[symmetric, unfolded Finished] refl] "10.prems"(1)
    obtain ev2 where "tr' = tr1 @ ev2" "clean ev2 out" by auto
    with e1 Finished show ?thesis by (auto intro: clean_append)
  next
    case (Raised e)
    with "10.prems" s e1 show ?thesis by auto
  qed
next
  case (11 fails iters l body tr)
  then show ?case by (auto intro: clean_Nil)
next
  case (12 fails iters n l body tr)
  obtain tr1 o1 where s: "step fails l [''next''] tr = (tr1, o1)"
    by (cases "step fails l [''next''] tr")
  then obtain ev1 where e1: "tr1 = tr @ ev1" "clean ev1 o1" using step_clean by blast
  show ?case
  proof (cases o1)
    case Finished
    note f1 = this
    obtain tr2 o2 where b: "exec_block fails iters body tr1 = (tr2, o2)"
      by (cases "exec_block fails iters body tr1")
    with "12.IH"(1)[OF s[symmetric, unfolded f1] refl] "12.prems"(1)
    obtain ev2 where e2: "tr2 = tr1 @ ev2" "clean ev2 o2" by auto
    show ?thesis
    proof (cases o2)
      case Finished
      with "12.prems" s b f1 have "exec_loop fails iters n l body tr2 = (tr', out)" by simp
      with "12.IH"(2)[OF s[symmetric, unfolded f1] refl b[symmetric, unfolded Finished] refl]
        "12.prems"(1)
      obtain ev3 where "tr' = tr2 @ ev3" "clean ev3 out" by auto
      with e1 e2 f1 Finished show ?thesis
        by (auto intro!: clean_append exI[of _ "ev1 @ ev2 @ ev3"])
    next
      case (Raised e)
      with "12.prems" s b f1 e1 e2 show ?thesis
        by (auto intro!: clean_append exI[of _ "ev1 @ ev2"])
    qed
  next
    case (Raised e)
    with "12.prems" s e1 show ?thesis by auto
  qed
qed (auto dest: step_clean)

lemma clean_nth:
  assumes "clean ev out" "i < length ev" "raised (ev ! i)"
  shows "Suc i = length ev \<and> out = Raised (line (ev ! i))"
proof (cases out)
  case Finished
  with assms show ?thesis by (auto simp: clean_def list_all_length)
next
  case (Raised l)
  with assms(1) have ne: "ev \<noteq> []" and la: "line (last ev) = l"
    and bl: "list_all (\<lambda>e. \<not> raised e) (butlast ev)" by (simp_all add: clean_def)
  have "\<not> i < length ev - 1"
  proof
    assume "i < length ev - 1"
    then have "i < length (butlast ev)" by simp
    with bl have "\<not> raised (butlast ev ! i)" by (simp add: list_all_length)
    with \<open>i < length (butlast ev)\<close> assms(3) show False by (simp add: nth_butlast)
  qed
  with assms(2) have i: "Suc i = length ev" by simp
  then have "ev ! i = last ev" using ne by (metis diff_Suc_1 last_conv_nth)
  with i la Raised show ?thesis by simp
qed

text \<open>After a prefix \<open>pre\<close> of events, a tail without \<open>Try\<close> lets every exception through.\<close>

lemma tail_propagates:
  assumes "no_try_block rest" "exec_block fails iters rest pre = (tr, out)"
  shows "length pre \<le> length tr"
    and "\<And>i. i < length pre \<Longrightarrow> tr ! i = pre ! i"
    and "\<And>i. length pre \<le> i \<Longrightarrow> i < length tr \<Longrightarrow> raised (tr ! i) \<Longrightarrow>
              Suc i = length tr \<and> out = Raised (line (tr ! i))"
proof -
  from exec_clean(2)[OF assms] obtain ev where ev: "tr = pre @ ev" "clean ev out" by blast
  show "length pre \<le> length tr" using ev(1) by simp
  show "tr ! i = pre ! i" if "i < length pre" for i using ev(1) that by (simp add: nth_append)
  show "Suc i = length tr \<and> out = Raised (line (tr ! i))"
    if "length pre \<le> i" "i < length tr" "raised (tr ! i)" for i
  proof -
    from that ev(1) have "i - length pre < length ev" "raised (ev ! (i - length pre))"
      by (auto simp: nth_append)
    from clean_nth[OF ev(2) this] that(1) ev(1) show ?thesis by (auto simp: nth_append)
  qed
qed

lemma intro_notebook_shape:
  "\<exists>rest. intro_notebook =
      Magic 60 ''matplotlib inline'' #
      Try 70 [Import 71 ''nilearn''] [Shell 73 ''pip install nilearn'', Import 74 ''nilearn''] #
      rest \<and> no_try_block rest"
  by (simp add: intro_notebook_def)

lemma classification_notebook_no_try: "no_try_block classification_notebook"
  by (simp add: classification_notebook_def)

lemma intro_run_cases:
  assumes "no_try_block rest"
    and "exec_block fails iters
           (Magic 60 ''matplotlib inline'' #
            Try 70 [Import 71 ''nilearn''] [Shell 73 ''pip install nilearn'', Import 74 ''nilearn''] #
            rest) [] = (tr, out)"
    and "i < length tr" "raised (tr ! i)"
  shows "(Suc i = length tr \<and> out = Raised (line (tr ! i))) \<or>
         (i = 1 \<and> line (tr ! 1) = 71 \<and> 2 < length tr \<and> line (tr ! 2) = 73 \<and>
          (\<not> raised (tr ! 2) \<longrightarrow> 3 < length tr \<and> line (tr ! 3) = 74))"
proof (cases "fails 0")
  case True
  with assms(2) have "tr = [\<lparr>line = 60, calls = [], raised = True\<rparr>]" "out = Raised 60"
    by (simp_all add: step_def numeral_2_eq_2 numeral_3_eq_3)
  with assms(3) show ?thesis by simp
next
  case f0: False
  show ?thesis
  proof (cases "fails 1")
    case False
    let ?pre = "[\<lparr>line = 60, calls = [], raised = False\<rparr>, \<lparr>line = 71, calls = [], raised = False\<rparr>]"
    from assms(2) f0 False have r: "exec_block fails iters rest ?pre = (tr, out)"
      by (simp add: step_def numeral_2_eq_2 numeral_3_eq_3)
    note tp = tail_propagates[OF assms(1) r]
    have p0: "\<not> raised (tr ! 0)" using tp(2)[of 0] by simp
    have p1: "\<not> raised (tr ! 1)" using tp(2)[of 1] by simp
    have "2 \<le> i"
    proof (rule ccontr)
      assume "\<not> 2 \<le> i"
      then have "i = 0 \<or> i = 1" by auto
      with p0 p1 assms(4) show False by auto
    qed
    then have "length ?pre \<le> i" by simp
    from tp(3)[OF this assms(3,4)] show ?thesis by (rule disjI1)
  next
    case f1: True
    show ?thesis
    proof (cases "fails 2")
      case True
      with assms(2) f0 f1 have
        "tr = [\<lparr>line = 60, calls = [], raised = False\<rparr>, \<lparr>line = 71, calls = [], raised = True\<rparr>,
               \<lparr>line = 73, calls = [], raised = True\<rparr>]" "out = Raised 73"
        by (simp_all add: step_def numeral_2_eq_2 numeral_3_eq_3)
      moreover from this(1) assms(3) have "i = 0 \<or> i = 1 \<or> i = 2" by auto
      ultimately show ?thesis using assms(4) by auto
    next
      case f2: False
      show ?thesis
      proof (cases "fails 3")
        case True
        with assms(2) f0 f1 f2 have
          "tr = [\<lparr>line = 60, calls = [], raised = False\<rparr>, \<lparr>line = 71, calls = [], raised = True\<rparr>,
                 \<lparr>line = 73, calls = [], raised = False\<rparr>, \<lparr>line = 74, calls = [], raised = True\<rparr>]"
          "out = Raised 74"
          by (simp_all add: step_def numeral_2_eq_2 numeral_3_eq_3)
        moreover from this(1) assms(3) have "i = 0 \<or> i = 1 \<or> i = 2 \<or> i = 3" by auto
        ultimately show ?thesis using assms(4) by auto
      next
        case False
        let ?pre = "[\<lparr>line = 60, calls = [], raised = False\<rparr>, \<lparr>line = 71, calls = [], raised = True\<rparr>,
                 \<lparr>line = 73, calls = [], raised = False\<rparr>, \<lparr>line = 74, calls = [], raised = False\<rparr>]"
        from assms(2) f0 f1 f2 False have r: "exec_block fails iters rest ?pre = (tr, out)"
          by (simp add: step_def numeral_2_eq_2 numeral_3_eq_3)
        note tp = tail_propagates[OF assms(1) r]
        have l: "3 < length tr" using tp(1) by simp
        have p0: "tr ! 0 = \<lparr>line = 60, calls = [], raised = False\<rparr>" using tp(2)[of 0] by simp
        have p1: "tr ! 1 = \<lparr>line = 71, calls = [], raised = True\<rparr>" using tp(2)[of 1] by simp
        have p2: "tr ! 2 = \<lparr>line = 73, calls = [], raised = False\<rparr>" using tp(2)[of 2] by simp
        have p3: "tr ! 3 = \<lparr>line = 74, calls = [], raised = False\<rparr>" using tp(2)[of 3] by simp
        show ?thesis
        proof (cases "4 \<le> i")
          case True
          then have "length ?pre \<le> i" by simp
          from tp(3)[OF this assms(3,4)] show ?thesis by (rule disjI1)
        next
          case False
          then have "i = 0 \<or> i = 1 \<or> i = 2 \<or> i = 3" by auto
          with assms(4) p0 p2 p3 have "i = 1" by auto
          with l p1 p2 p3 show ?thesis by simp
        qed
      qed
    qed
  qed
qed

text \<open>
  C4. In every run of the first notebook, a step that raises ends the run with its
  exception, with one exception: the \<^verbatim>\<open>import nilearn\<close> of line 71, the second step.
  When it raises, the run goes on with \<^verbatim>\<open>!pip install nilearn\<close> (line 73) and, unless
  that raises, with the second \<^verbatim>\<open>import nilearn\<close> (line 74). In every run of the second
  notebook, every step that raises ends the run with its exception.
\<close>

theorem only_import_failure_is_caught:
  assumes "exec_block fails iters intro_notebook [] = (tr, out)"
    and "exec_block fails' iters' classification_notebook [] = (tr', out')"
  shows "(\<forall>i < length tr. raised (tr ! i) \<longrightarrow>
            (Suc i = length tr \<and> out = Raised (line (tr ! i))) \<or>
            (i = 1 \<and> line (tr ! 1) = 71 \<and> 2 < length tr \<and> line (tr ! 2) = 73 \<and>
             (\<not> raised (tr ! 2) \<longrightarrow> 3 < length tr \<and> line (tr ! 3) = 74))) \<and>
         (\<forall>i < length tr'. raised (tr' ! i) \<longrightarrow>
            Suc i = length tr' \<and> out' = Raised (line (tr' ! i)))"
proof
  from intro_notebook_shape obtain rest where
    s: "intro_notebook =
      Magic 60 ''matplotlib inline'' #
      Try 70 [Import 71 ''nilearn''] [Shell 73 ''pip install nilearn'', Import 74 ''nilearn''] #
      rest" and n: "no_try_block rest" by blast
  show "\<forall>i < length tr. raised (tr ! i) \<longrightarrow>
            (Suc i = length tr \<and> out = Raised (line (tr ! i))) \<or>
            (i = 1 \<and> line (tr ! 1) = 71 \<and> 2 < length tr \<and> line (tr ! 2) = 73 \<and>
             (\<not> raised (tr ! 2) \<longrightarrow> 3 < length tr \<and> line (tr ! 3) = 74))"
    using intro_run_cases[OF n assms(1)[unfolded s]] by blast
next
  show "\<forall>i < length tr'. raised (tr' ! i) \<longrightarrow>
            Suc i = length tr' \<and> out' = Raised (line (tr' ! i))"
    using tail_propagates(3)[OF classification_notebook_no_try assms(2)] by simp
qed

theorem only_import_failure_is_caught_witness:
  "exec_block (\<lambda>k. k = 1 \<or> k = 2) (\<lambda>k. 0) intro_notebook [] =
     ([\<lparr>line = 60, calls = [], raised = False\<rparr>, \<lparr>line = 71, calls = [], raised = True\<rparr>,
       \<lparr>line = 73, calls = [], raised = True\<rparr>], Raised 73) \<and>
   exec_block (\<lambda>k. k = 2) (\<lambda>k. 0) classification_notebook [] =
     ([\<lparr>line = 63, calls = [], raised = False\<rparr>, \<lparr>line = 76, calls = [], raised = False\<rparr>,
       \<lparr>line = 77, calls = [], raised = True\<rparr>], Raised 77) \<and>
   raised ([\<lparr>line = 60, calls = [], raised = False\<rparr>, \<lparr>line = 71, calls = [], raised = True\<rparr>,
            \<lparr>line = 73, calls = [], raised = True\<rparr>] ! 1) \<and>
   line ([\<lparr>line = 60, calls = [], raised = False\<rparr>, \<lparr>line = 71, calls = [], raised = True\<rparr>,
          \<lparr>line = 73, calls = [], raised = True\<rparr>] ! 2) = 73 \<and>
   Raised 77 =
     Raised (line ([\<lparr>line = 63, calls = [], raised = False\<rparr>, \<lparr>line = 76, calls = [], raised = False\<rparr>,
                    \<lparr>line = 77, calls = [], raised = True\<rparr>] ! 2))"
proof -
  let ?tr = "[\<lparr>line = 60, calls = [], raised = False\<rparr>, \<lparr>line = 71, calls = [], raised = True\<rparr>,
       \<lparr>line = 73, calls = [], raised = True\<rparr>]"
  let ?tr' = "[\<lparr>line = 63, calls = [], raised = False\<rparr>, \<lparr>line = 76, calls = [], raised = False\<rparr>,
       \<lparr>line = 77, calls = [], raised = True\<rparr>]"
  have a: "exec_block (\<lambda>k. k = 1 \<or> k = 2) (\<lambda>k. 0) intro_notebook [] = (?tr, Raised 73)"
    by (simp add: intro_notebook_def step_def)
  have b: "exec_block (\<lambda>k. k = 2) (\<lambda>k. 0) classification_notebook [] = (?tr', Raised 77)"
    by (simp add: classification_notebook_def step_def)
  have r1: "1 < length ?tr" "raised (?tr ! 1)" by simp_all
  have r2: "2 < length ?tr'" "raised (?tr' ! 2)" by simp_all
  from only_import_failure_is_caught[OF a b, THEN conjunct1, rule_format, OF r1]
  have c1: "line (?tr ! 2) = 73" by simp
  from only_import_failure_is_caught[OF a b, THEN conjunct2, rule_format, OF r2]
  have c2: "Raised 77 = Raised (line (?tr' ! 2))" by (rule conjunct2)
  show ?thesis by (rule conjI[OF a conjI[OF b conjI[OF r1(2) conjI[OF c1 c2]]]])
qed

subsection \<open>Loops and branches\<close>

text \<open>
  C6, as the code has it. The first notebook has no loop. The second notebook has six
  \<^verbatim>\<open>for\<close> statements: the assertion loop over \<^verbatim>\<open>pooled_subjects\<close> (line 173), three
  plotting loops (lines 249, 318, 404), and the loop over the kinds (line 468) with the
  loop over the cross-validation folds nested in it (line 470), the only nesting. It also
  has three list comprehensions (lines 498, 499, 504). Apart from loops, each notebook has
  one statement that branches.
\<close>

theorem loops_of_notebooks:
  "for_loops_block intro_notebook = [] \<and>
   for_loops_block classification_notebook =
     [(173, 0), (249, 0), (318, 0), (404, 0), (468, 0), (470, 1)] \<and>
   comprehensions_block intro_notebook = [] \<and>
   comprehensions_block classification_notebook = [498, 499, 504] \<and>
   length (branches_block intro_notebook) = 1 \<and>
   length (branches_block classification_notebook) = 1"
  by (simp add: intro_notebook_def classification_notebook_def)

text \<open>C6, as stated, fails: the two notebooks do not have exactly two \<^verbatim>\<open>for\<close> loops.\<close>

theorem two_loops_counterexample:
  "length (for_loops_block intro_notebook @ for_loops_block classification_notebook) \<noteq> 2"
  by (simp add: intro_notebook_def classification_notebook_def)

text \<open>
  C5, as the code has it. Neither notebook defines a function or a class, so every call
  it makes is into code that exists before it: a library function, class or method, or a
  built-in. A statement is not always a single call. In the first notebook the
  statements at lines 75, 160, 237, 388, 526 and 658 make no call and those at lines
  529, 616 and 812 make more than one; in the second notebook the statements at lines
  131, 134, 157, 173, 174, 231, 448, 467, 468, 469 and 526 make no call and those at
  lines 86, 138, 214, 232, 249, 250, 318, 319, 404, 405, 477, 479, 482, 502, 506, 507
  and 508 make more than one. Every other assignment, expression, comprehension and loop
  header makes exactly one call. Two statements of the notebooks branch, and no other:
  the \<^verbatim>\<open>try\<close>/\<^verbatim>\<open>except\<close> at line 70 of the first notebook, whose handler installs
  nilearn and imports it again after a failed \<^verbatim>\<open>import nilearn\<close>, and the \<^verbatim>\<open>assert\<close> at
  line 174 of the second notebook.
\<close>

theorem calls_and_branches_of_notebooks:
  "definitions_block intro_notebook = [] \<and>
   definitions_block classification_notebook = [] \<and>
   lines_with (\<lambda>n. n = 0) intro_notebook = [75, 160, 237, 388, 526, 658] \<and>
   lines_with (\<lambda>n. 1 < n) intro_notebook = [529, 616, 812] \<and>
   lines_with (\<lambda>n. n = 0) classification_notebook =
     [131, 134, 157, 173, 174, 231, 448, 467, 468, 469, 526] \<and>
   lines_with (\<lambda>n. 1 < n) classification_notebook =
     [86, 138, 214, 232, 249, 250, 318, 319, 404, 405, 477, 479, 482, 502, 506, 507, 508] \<and>
   branches_block intro_notebook =
     [Try 70 [Import 71 ''nilearn''] [Shell 73 ''pip install nilearn'', Import 74 ''nilearn'']] \<and>
   branches_block classification_notebook = [Assert 174 []]"
  by (simp add: intro_notebook_def classification_notebook_def lines_with_def)

text \<open>
  C5, as stated, fails. Not every statement is a single call: line 616 of the first
  notebook chains two calls (the constructor of the masker and its \<^verbatim>\<open>fit\<close>), and line
  157 of the second notebook, \<^verbatim>\<open>pooled_subjects = adults + children\<close>, makes none. The
  notebooks are not free of branching and error handling either: in the run of the
  first notebook in which only the second step raises (the \<^verbatim>\<open>import nilearn\<close> of line
  71), the notebook's own handler takes over and the run finishes.
\<close>

theorem single_call_no_branching_counterexample:
  "(616, 2) \<in> set (call_counts_block intro_notebook) \<and>
   (157, 0) \<in> set (call_counts_block classification_notebook) \<and>
   \<not> (branches_block intro_notebook = [] \<and> branches_block classification_notebook = []) \<and>
   raised (fst (exec_block (\<lambda>k. k = 1) (\<lambda>k. 0) intro_notebook []) ! 1) \<and>
   snd (exec_block (\<lambda>k. k = 1) (\<lambda>k. 0) intro_notebook []) = Finished"
  by (simp add: intro_notebook_def classification_notebook_def step_def)

subsection \<open>The order of the pipeline stages\<close>

lemma stages_Nil: "stages [] = []"
  by (simp add: stages_def map_filter_def)

lemma stages_append: "stages (xs @ ys) = stages xs @ stages ys"
  by (simp add: stages_def map_filter_def)

lemma trace_stages_append: "trace_stages (tr @ ev) = trace_stages tr @ trace_stages ev"
  by (simp add: trace_stages_def stages_append)

lemma in_order_append:
  "in_order seen (xs @ ys) = (in_order seen xs \<and> in_order (seen \<union> set xs) ys)"
  by (induction xs arbitrary: seen) auto

lemma chk_calls_in_order:
  "chk_calls must may ss \<Longrightarrow> must \<subseteq> seen \<Longrightarrow> seen \<subseteq> may \<Longrightarrow> in_order seen ss"
proof (induction ss arbitrary: must may seen)
  case Nil
  then show ?case by simp
next
  case (Cons s ss)
  from Cons.prems have "chk_calls (insert s must) (insert s may) ss"
    and "insert s must \<subseteq> insert s seen" and "insert s seen \<subseteq> insert s may" by auto
  then have "in_order (insert s seen) ss" by (rule Cons.IH)
  moreover from Cons.prems have "set (needs s) \<subseteq> seen" "set (excludes s) \<inter> seen = {}" by auto
  ultimately show ?case by simp
qed

lemma step_stages:
  "step fails l cs tr = (tr', out) \<Longrightarrow> trace_stages tr' = trace_stages tr @ stages cs"
  by (auto simp: step_def trace_stages_def stages_append split: if_splits)

lemma step_sound:
  assumes "chk_calls must may (stages cs)" "in_order {} (trace_stages tr)"
    "must \<subseteq> set (trace_stages tr)" "set (trace_stages tr) \<subseteq> may"
    "step fails l cs tr = (tr', out)"
  shows "in_order {} (trace_stages tr') \<and>
         set (trace_stages tr') = set (trace_stages tr) \<union> set (stages cs)"
proof -
  have "in_order (set (trace_stages tr)) (stages cs)"
    using assms(1,3,4) by (rule chk_calls_in_order)
  then show ?thesis
    using assms(2) step_stages[OF assms(5)] by (simp add: in_order_append)
qed

text \<open>
  The check of the text is sound for every run: from a trace that is in order and lies
  between \<open>must\<close> and \<open>may\<close>, a checked statement leads to a trace that is in order.
\<close>

lemma chk_sound:
  "chk must may s \<Longrightarrow> in_order {} (trace_stages tr) \<Longrightarrow> must \<subseteq> set (trace_stages tr) \<Longrightarrow>
   set (trace_stages tr) \<subseteq> may \<Longrightarrow> exec fails iters s tr = (tr', out) \<Longrightarrow>
   in_order {} (trace_stages tr') \<and> set (trace_stages tr) \<subseteq> set (trace_stages tr') \<and>
   set (trace_stages tr') \<subseteq> may \<union> set (stages (all_calls s)) \<and>
   (out = Finished \<longrightarrow> set (stages (own_calls s)) \<subseteq> set (trace_stages tr'))"
  "chk_block must may ss \<Longrightarrow> in_order {} (trace_stages tr) \<Longrightarrow> must \<subseteq> set (trace_stages tr) \<Longrightarrow>
   set (trace_stages tr) \<subseteq> may \<Longrightarrow> exec_block fails iters ss tr = (tr', out) \<Longrightarrow>
   in_order {} (trace_stages tr') \<and> set (trace_stages tr) \<subseteq> set (trace_stages tr') \<and>
   set (trace_stages tr') \<subseteq> may \<union> set (stages (all_calls_block ss))"
  "chk_block must may body \<Longrightarrow> set (stages (all_calls_block body)) \<subseteq> may \<Longrightarrow>
   in_order {} (trace_stages tr) \<Longrightarrow> must \<subseteq> set (trace_stages tr) \<Longrightarrow>
   set (trace_stages tr) \<subseteq> may \<Longrightarrow> exec_loop fails iters n l body tr = (tr', out) \<Longrightarrow>
   in_order {} (trace_stages tr') \<and> set (trace_stages tr) \<subseteq> set (trace_stages tr') \<and>
   set (trace_stages tr') \<subseteq> may"
proof (induction fails iters s tr and fails iters ss tr and fails iters n l body tr
    arbitrary: must may tr' out and must may tr' out and must may tr' out
    rule: exec_exec_block_exec_loop.induct)
  case (1 fails iters l m tr)
  then show ?case using step_sound[of must may "[]" tr fails l tr' out] by (simp add: stages_Nil)
next
  case (2 fails iters l m tr)
  then show ?case using step_sound[of must may "[]" tr fails l tr' out] by (simp add: stages_Nil)
next
  case (3 fails iters l m tr)
  then show ?case using step_sound[of must may "[]" tr fails l tr' out] by (simp add: stages_Nil)
next
  case (4 fails iters l cs tr)
  then show ?case using step_sound[of must may cs tr fails l tr' out] by auto
next
  case (5 fails iters l cs tr)
  then show ?case using step_sound[of must may cs tr fails l tr' out] by auto
next
  case (6 fails iters l cs tr)
  then show ?case using step_sound[of must may cs tr fails l tr' out] by auto
next
  case (7 fails iters l cs body tr)
  let ?B = "set (stages (all_calls_block body))"
  obtain tr1 o1 where s: "step fails l cs tr = (tr1, o1)" by (cases "step fails l cs tr")
  from "7.prems" have c1: "chk_calls must may (stages cs)"
    and c2: "chk_block (must \<union> set (stages cs)) (may \<union> set (stages cs) \<union> ?B) body" by simp_all
  from step_sound[OF c1 "7.prems"(2,3,4) s]
  have o: "in_order {} (trace_stages tr1)"
    and e: "set (trace_stages tr1) = set (trace_stages tr) \<union> set (stages cs)" by simp_all
  show ?case
  proof (cases o1)
    case Finished
    with "7.prems"(5) s have l: "exec_loop fails iters (iters (length tr)) l body tr1 = (tr', out)"
      by simp
    have "in_order {} (trace_stages tr') \<and> set (trace_stages tr1) \<subseteq> set (trace_stages tr') \<and>
          set (trace_stages tr') \<subseteq> may \<union> set (stages cs) \<union> ?B"
      using "7.prems"(3,4) e
      by (intro "7.IH"[OF s[symmetric, unfolded Finished] refl c2 _ o _ _ l]) auto
    then show ?thesis using e by (auto simp: stages_append)
  next
    case (Raised x)
    with "7.prems"(5) s have "tr' = tr1" "out = Raised x" by simp_all
    then show ?thesis using o e "7.prems"(4) by (auto simp: stages_append)
  qed
next
  case (8 fails iters l body handler tr)
  let ?B = "set (stages (all_calls_block body))"
  obtain tr1 o1 where b: "exec_block fails iters body tr = (tr1, o1)"
    by (cases "exec_block fails iters body tr")
  from "8.prems" have c1: "chk_block must may body" and c2: "chk_block must (may \<union> ?B) handler"
    by simp_all
  from "8.IH"(1)[OF c1 "8.prems"(2,3,4) b]
  have o: "in_order {} (trace_stages tr1)" and m: "set (trace_stages tr) \<subseteq> set (trace_stages tr1)"
    and y: "set (trace_stages tr1) \<subseteq> may \<union> ?B" by simp_all
  show ?case
  proof (cases o1)
    case Finished
    with "8.prems"(5) b have "tr' = tr1" by simp
    then show ?thesis using o m y by (auto simp: stages_append stages_Nil)
  next
    case (Raised x)
    with "8.prems"(5) b have h: "exec_block fails iters handler tr1 = (tr', out)" by simp
    have "in_order {} (trace_stages tr') \<and> set (trace_stages tr1) \<subseteq> set (trace_stages tr') \<and>
          set (trace_stages tr') \<subseteq> may \<union> ?B \<union> set (stages (all_calls_block handler))"
      using "8.prems"(3) m y
      by (intro "8.IH"(2)[OF b[symmetric, unfolded Raised] refl c2 o _ _ h]) auto
    then show ?thesis using m by (auto simp: stages_append stages_Nil)
  qed
next
  case (9 fails iters tr)
  then show ?case by auto
next
  case (10 fails iters s ss tr)
  obtain tr1 o1 where e: "exec fails iters s tr = (tr1, o1)" by (cases "exec fails iters s tr")
  from "10.prems" have c1: "chk must may s"
    and c2: "chk_block (must \<union> set (stages (own_calls s))) (may \<union> set (stages (all_calls s))) ss"
    by simp_all
  from "10.IH"(1)[OF c1 "10.prems"(2,3,4) e]
  have o: "in_order {} (trace_stages tr1)" and m: "set (trace_stages tr) \<subseteq> set (trace_stages tr1)"
    and y: "set (trace_stages tr1) \<subseteq> may \<union> set (stages (all_calls s))"
    and f: "o1 = Finished \<longrightarrow> set (stages (own_calls s)) \<subseteq> set (trace_stages tr1)" by simp_all
  show ?case
  proof (cases o1)
    case Finished
    with "10.prems"(5) e have r: "exec_block fails iters ss tr1 = (tr', out)" by simp
    have "in_order {} (trace_stages tr') \<and> set (trace_stages tr1) \<subseteq> set (trace_stages tr') \<and>
          set (trace_stages tr') \<subseteq>
            may \<union> set (stages (all_calls s)) \<union> set (stages (all_calls_block ss))"
      using "10.prems"(3) m y f Finished
      by (intro "10.IH"(2)[OF e[symmetric, unfolded Finished] refl c2 o _ _ r]) auto
    then show ?thesis using m by (auto simp: stages_append)
  next
    case (Raised x)
    with "10.prems"(5) e have "tr' = tr1" by simp
    then show ?thesis using o m y by (auto simp: stages_append)
  qed
next
  case (11 fails iters l body tr)
  then show ?case by auto
next
  case (12 fails iters n l body tr)
  obtain tr1 o1 where s: "step fails l [''next''] tr = (tr1, o1)"
    by (cases "step fails l [''next''] tr")
  have st: "trace_stages tr1 = trace_stages tr"
    using step_stages[OF s] by (simp add: stages_def stage_of_def map_filter_def)
  show ?case
  proof (cases o1)
    case Finished
    note f1 = this
    obtain tr2 o2 where b: "exec_block fails iters body tr1 = (tr2, o2)"
      by (cases "exec_block fails iters body tr1")
    from "12.IH"(1)[OF s[symmetric, unfolded f1] refl "12.prems"(1) _ _ _ b] "12.prems"(2,3,4,5) st
    have o: "in_order {} (trace_stages tr2)" and m: "set (trace_stages tr) \<subseteq> set (trace_stages tr2)"
      and y: "set (trace_stages tr2) \<subseteq> may" by auto
    show ?thesis
    proof (cases o2)
      case Finished
      with "12.prems"(6) s b f1 have r: "exec_loop fails iters n l body tr2 = (tr', out)" by simp
      have "in_order {} (trace_stages tr') \<and> set (trace_stages tr2) \<subseteq> set (trace_stages tr') \<and>
            set (trace_stages tr') \<subseteq> may"
        using "12.prems"(4) m y
        by (intro "12.IH"(2)[OF s[symmetric, unfolded f1] refl b[symmetric, unfolded Finished] refl
              "12.prems"(1,2) o _ _ r]) auto
      then show ?thesis using m by auto
    next
      case (Raised x)
      with "12.prems"(6) s b f1 have "tr' = tr2" by simp
      then show ?thesis using o m y by auto
    qed
  next
    case (Raised x)
    with "12.prems"(6) s have "tr' = tr1" by simp
    then show ?thesis using st "12.prems" by auto
  qed
next
  case (13 fails iters l name tr)
  then show ?case using step_sound[of must may "[]" tr fails l tr' out] by (simp add: stages_Nil)
qed

lemma in_order_nth:
  "in_order seen ss \<Longrightarrow> j < length ss \<Longrightarrow>
   set (needs (ss ! j)) \<subseteq> seen \<union> set (take j ss) \<and>
   set (excludes (ss ! j)) \<inter> (seen \<union> set (take j ss)) = {}"
proof (induction ss arbitrary: seen j)
  case Nil
  then show ?case by simp
next
  case (Cons s ss)
  show ?case
  proof (cases j)
    case 0
    with Cons.prems show ?thesis by simp
  next
    case (Suc k)
    with Cons.prems have "in_order (insert s seen) ss" "k < length ss" by simp_all
    from Cons.IH[OF this] Suc show ?thesis by simp
  qed
qed

lemma in_order_respects: "in_order {} ss \<Longrightarrow> respects_pipeline ss"
  unfolding respects_pipeline_def list_all_iff
  using in_order_nth[of "{}" ss] by fastforce

lemma intro_notebook_checked: "chk_block {} {} intro_notebook"
  by (simp add: intro_notebook_def stages_def stage_of_def map_filter_def)

lemma classification_notebook_checked: "chk_block {} {} classification_notebook"
  by (simp add: classification_notebook_def stages_def stage_of_def map_filter_def)

lemma checked_run_in_order:
  assumes "chk_block {} {} nb"
  shows "in_order {} (trace_stages (fst (exec_block fails iters nb [])))"
proof -
  obtain tr out where r: "exec_block fails iters nb [] = (tr, out)"
    by (cases "exec_block fails iters nb []")
  have "in_order {} (trace_stages [])" by (simp add: trace_stages_def stages_Nil)
  from chk_sound(2)[OF assms this _ _ r] r show ?thesis
    by (simp add: trace_stages_def stages_Nil)
qed

subsection \<open>Variables are assigned before they are read\<close>

lemma reads_bound_append:
  "reads_bound names bound (xs @ ys) =
   (reads_bound names bound xs \<and>
    reads_bound names (bound \<union> set (concat (map (event_writes names) xs))) ys)"
  by (induction xs arbitrary: bound) (auto simp: Un_assoc)

lemma step_event:
  assumes "step fails l cs tr = (tr', out)"
  shows "\<exists>ev. tr' = tr @ [ev] \<and> line ev = l \<and> calls ev = cs \<and>
              (raised ev \<longleftrightarrow> out \<noteq> Finished)"
  using assms by (auto simp: step_def split: if_splits)

lemma prim_names_sound:
  assumes "prim_ok names bound l"
    and "reads_bound names {} tr"
    and "bound \<subseteq> set (concat (map (event_writes names) tr))"
    and "step fails l cs tr = (tr', out)"
  shows "reads_bound names {} tr' \<and>
         set (concat (map (event_writes names) tr)) \<subseteq> set (concat (map (event_writes names) tr')) \<and>
         (out = Finished \<longrightarrow> set (plain_writes names l) \<subseteq> set (concat (map (event_writes names) tr')))"
proof -
  from step_event[OF assms(4)] obtain ev where ev: "tr' = tr @ [ev]" "line ev = l"
    "calls ev = cs" "raised ev \<longleftrightarrow> out \<noteq> Finished" by blast
  from assms(1) have r: "event_reads names ev = plain_reads names l"
    and w: "\<not> raised ev \<Longrightarrow> event_writes names ev = plain_writes names l"
    and b: "set (plain_reads names l) \<subseteq> bound"
    using ev(2) by (simp_all add: prim_ok_def event_reads_def event_writes_def)
  have "reads_bound names {} tr'"
    using assms(2,3) b r unfolding ev(1) by (auto simp: reads_bound_append)
  moreover have "out = Finished \<Longrightarrow>
      set (plain_writes names l) \<subseteq> set (concat (map (event_writes names) tr'))"
    using w ev(1,4) by auto
  ultimately show ?thesis using ev(1) by auto
qed

lemma chk_names_sound:
  "chk_names names bound s \<Longrightarrow> reads_bound names {} tr \<Longrightarrow>
   bound \<subseteq> set (concat (map (event_writes names) tr)) \<Longrightarrow>
   exec fails iters s tr = (tr', out) \<Longrightarrow>
   reads_bound names {} tr' \<and>
   set (concat (map (event_writes names) tr)) \<subseteq> set (concat (map (event_writes names) tr')) \<and>
   (out = Finished \<longrightarrow>
      set (sure_names names s) \<subseteq> set (concat (map (event_writes names) tr')))"
  "chk_names_block names bound ss \<Longrightarrow> reads_bound names {} tr \<Longrightarrow>
   bound \<subseteq> set (concat (map (event_writes names) tr)) \<Longrightarrow>
   exec_block fails iters ss tr = (tr', out) \<Longrightarrow>
   reads_bound names {} tr' \<and>
   set (concat (map (event_writes names) tr)) \<subseteq> set (concat (map (event_writes names) tr'))"
  "plain_reads names l = [] \<Longrightarrow> plain_writes names l = [] \<Longrightarrow>
   chk_names_block names (bound \<union> set (loop_targets names l)) body \<Longrightarrow>
   reads_bound names {} tr \<Longrightarrow>
   bound \<subseteq> set (concat (map (event_writes names) tr)) \<Longrightarrow>
   exec_loop fails iters n l body tr = (tr', out) \<Longrightarrow>
   reads_bound names {} tr' \<and>
   set (concat (map (event_writes names) tr)) \<subseteq> set (concat (map (event_writes names) tr'))"
proof (induction fails iters s tr and fails iters ss tr and fails iters n l body tr
    arbitrary: bound tr' out and bound tr' out and bound tr' out
    rule: exec_exec_block_exec_loop.induct)
  case (1 fails iters l m tr)
  then show ?case using prim_names_sound[of names bound l tr fails "[]" tr' out] by simp
next
  case (2 fails iters l m tr)
  then show ?case using prim_names_sound[of names bound l tr fails "[]" tr' out] by simp
next
  case (3 fails iters l m tr)
  then show ?case using prim_names_sound[of names bound l tr fails "[]" tr' out] by simp
next
  case (4 fails iters l cs tr)
  then show ?case using prim_names_sound[of names bound l tr fails cs tr' out] by simp
next
  case (5 fails iters l cs tr)
  then show ?case using prim_names_sound[of names bound l tr fails cs tr' out] by simp
next
  case (6 fails iters l cs tr)
  then show ?case using prim_names_sound[of names bound l tr fails cs tr' out] by simp
next
  case (7 fails iters l cs body tr)
  let ?W = "\<lambda>t. set (concat (map (event_writes names) t))"
  obtain tr1 o1 where s: "step fails l cs tr = (tr1, o1)" by (cases "step fails l cs tr")
  from "7.prems"(1) have c: "cs \<noteq> [''next'']" "plain_reads names l = []"
    "plain_writes names l = []" "set (loop_reads names l) \<subseteq> bound"
    "chk_names_block names (bound \<union> set (loop_targets names l)) body" by simp_all
  from step_event[OF s] obtain ev where ev: "tr1 = tr @ [ev]" "line ev = l" "calls ev = cs"
    by blast
  have r: "event_reads names ev = loop_reads names l" and w: "event_writes names ev = []"
    using c(1,2,3) ev(2,3) by (simp_all add: event_reads_def event_writes_def)
  have o: "reads_bound names {} tr1"
    using "7.prems"(2,3) c(4) r unfolding ev(1) by (auto simp: reads_bound_append)
  have e: "?W tr1 = ?W tr" using w ev(1) by simp
  show ?case
  proof (cases o1)
    case Finished
    with "7.prems"(4) s have l: "exec_loop fails iters (iters (length tr)) l body tr1 = (tr', out)"
      by simp
    have "reads_bound names {} tr' \<and> ?W tr1 \<subseteq> ?W tr'"
      using "7.prems"(3) e
      by (intro "7.IH"[OF s[symmetric, unfolded Finished] refl c(2,3,5) o _ l]) simp
    then show ?thesis using e by simp
  next
    case (Raised x)
    with "7.prems"(4) s have "tr' = tr1" by simp
    then show ?thesis using o e by simp
  qed
next
  case (8 fails iters l body handler tr)
  let ?W = "\<lambda>t. set (concat (map (event_writes names) t))"
  obtain tr1 o1 where b: "exec_block fails iters body tr = (tr1, o1)"
    by (cases "exec_block fails iters body tr")
  from "8.prems"(1) have c1: "chk_names_block names bound body"
    and c2: "chk_names_block names bound handler" by simp_all
  from "8.IH"(1)[OF c1 "8.prems"(2,3) b]
  have o: "reads_bound names {} tr1" and m: "?W tr \<subseteq> ?W tr1" by simp_all
  show ?case
  proof (cases o1)
    case Finished
    with "8.prems"(4) b have "tr' = tr1" by simp
    then show ?thesis using o m by simp
  next
    case (Raised x)
    with "8.prems"(4) b have h: "exec_block fails iters handler tr1 = (tr', out)" by simp
    have "reads_bound names {} tr' \<and> ?W tr1 \<subseteq> ?W tr'"
      using "8.prems"(3) m
      by (intro "8.IH"(2)[OF b[symmetric, unfolded Raised] refl c2 o _ h]) auto
    then show ?thesis using m by auto
  qed
next
  case (9 fails iters tr)
  then show ?case by simp
next
  case (10 fails iters s ss tr)
  let ?W = "\<lambda>t. set (concat (map (event_writes names) t))"
  obtain tr1 o1 where e: "exec fails iters s tr = (tr1, o1)" by (cases "exec fails iters s tr")
  from "10.prems"(1) have c1: "chk_names names bound s"
    and c2: "chk_names_block names (bound \<union> set (sure_names names s)) ss" by simp_all
  from "10.IH"(1)[OF c1 "10.prems"(2,3) e]
  have o: "reads_bound names {} tr1" and m: "?W tr \<subseteq> ?W tr1"
    and f: "o1 = Finished \<longrightarrow> set (sure_names names s) \<subseteq> ?W tr1" by simp_all
  show ?case
  proof (cases o1)
    case Finished
    with "10.prems"(4) e have r: "exec_block fails iters ss tr1 = (tr', out)" by simp
    have "reads_bound names {} tr' \<and> ?W tr1 \<subseteq> ?W tr'"
      using "10.prems"(3) m f Finished
      by (intro "10.IH"(2)[OF e[symmetric, unfolded Finished] refl c2 o _ r]) auto
    then show ?thesis using m by auto
  next
    case (Raised x)
    with "10.prems"(4) e have "tr' = tr1" by simp
    then show ?thesis using o m by simp
  qed
next
  case (11 fails iters l body tr)
  then show ?case by simp
next
  case (12 fails iters n l body tr)
  let ?W = "\<lambda>t. set (concat (map (event_writes names) t))"
  obtain tr1 o1 where s: "step fails l [''next''] tr = (tr1, o1)"
    by (cases "step fails l [''next''] tr")
  from step_event[OF s] obtain ev where ev: "tr1 = tr @ [ev]" "line ev = l"
    "calls ev = [''next'']" "raised ev \<longleftrightarrow> o1 \<noteq> Finished" by blast
  have r: "event_reads names ev = []"
    using "12.prems"(1) ev(2,3) by (simp add: event_reads_def)
  have o: "reads_bound names {} tr1"
    using "12.prems"(4) r unfolding ev(1) by (simp add: reads_bound_append)
  have m1: "?W tr \<subseteq> ?W tr1" using ev(1) by auto
  show ?case
  proof (cases o1)
    case Finished
    note f1 = this
    have w: "event_writes names ev = loop_targets names l"
      using "12.prems"(2) ev(2,3,4) f1 by (simp add: event_writes_def)
    have b1: "bound \<union> set (loop_targets names l) \<subseteq> ?W tr1"
      using "12.prems"(5) w ev(1) by auto
    obtain tr2 o2 where b: "exec_block fails iters body tr1 = (tr2, o2)"
      by (cases "exec_block fails iters body tr1")
    from "12.IH"(1)[OF s[symmetric, unfolded f1] refl "12.prems"(3) o b1 b]
    have o2: "reads_bound names {} tr2" and m2: "?W tr1 \<subseteq> ?W tr2" by simp_all
    show ?thesis
    proof (cases o2)
      case Finished
      with "12.prems"(6) s b f1 have r: "exec_loop fails iters n l body tr2 = (tr', out)" by simp
      have "reads_bound names {} tr' \<and> ?W tr2 \<subseteq> ?W tr'"
        using "12.prems"(5) m1 m2
        by (intro "12.IH"(2)[OF s[symmetric, unfolded f1] refl b[symmetric, unfolded Finished] refl
              "12.prems"(1,2,3) o2 _ r]) auto
      then show ?thesis using m1 m2 by (meson order_trans)
    next
      case (Raised x)
      with "12.prems"(6) s b f1 have "tr' = tr2" by simp
      then show ?thesis using o2 m1 m2 by auto
    qed
  next
    case (Raised x)
    with "12.prems"(6) s have "tr' = tr1" by simp
    then show ?thesis using o m1 by simp
  qed
next
  case (13 fails iters l name tr)
  then show ?case using prim_names_sound[of names bound l tr fails "[]" tr' out] by simp
qed

lemma reads_bound_nth:
  "reads_bound names bound tr \<Longrightarrow> j < length tr \<Longrightarrow>
   set (event_reads names (tr ! j)) \<subseteq>
     bound \<union> set (concat (map (event_writes names) (take j tr)))"
proof (induction tr arbitrary: bound j)
  case Nil
  then show ?case by simp
next
  case (Cons ev tr)
  show ?case
  proof (cases j)
    case 0
    with Cons.prems show ?thesis by simp
  next
    case (Suc k)
    with Cons.prems have "reads_bound names (bound \<union> set (event_writes names ev)) tr"
      "k < length tr" by simp_all
    from Cons.IH[OF this] Suc show ?thesis by auto
  qed
qed

lemma reads_bound_before: "reads_bound names {} tr \<Longrightarrow> bound_before_read names tr"
proof -
  assume a: "reads_bound names {} tr"
  have "\<exists>i < j. n \<in> set (event_writes names (tr ! i))"
    if "j < length tr" "n \<in> set (event_reads names (tr ! j))" for j n
  proof -
    from reads_bound_nth[OF a that(1)] that(2)
    have "n \<in> set (concat (map (event_writes names) (take j tr)))" by auto
    then obtain ev where "ev \<in> set (take j tr)" "n \<in> set (event_writes names ev)" by auto
    then obtain i where "i < length (take j tr)" "take j tr ! i = ev"
      by (auto simp: in_set_conv_nth)
    with \<open>n \<in> set (event_writes names ev)\<close> that(1) show ?thesis by auto
  qed
  then show ?thesis
    unfolding bound_before_read_def list_all_iff list_ex_iff by (force simp: Bex_def)
qed

lemma checked_run_names:
  assumes "chk_names_block names {} nb"
  shows "bound_before_read names (fst (exec_block fails iters nb []))"
proof -
  obtain tr out where r: "exec_block fails iters nb [] = (tr, out)"
    by (cases "exec_block fails iters nb []")
  have "reads_bound names {} []" by simp
  from chk_names_sound(2)[OF assms this _ r] r show ?thesis
    by (simp add: reads_bound_before)
qed

lemma map_of_key_cong: "k = k' \<Longrightarrow> map_of ps k = map_of ps k'"
  by simp

lemma intro_names_checked: "chk_names_block intro_names {} intro_notebook"
  by (simp add: intro_notebook_def intro_names_def prim_ok_def plain_reads_def plain_writes_def
      loop_reads_def loop_targets_def map_of_Cons_code del: map_of.simps cong: map_of_key_cong)

lemma classification_names_checked:
  "chk_names_block classification_names {} classification_notebook"
  by (simp add: classification_notebook_def classification_names_def prim_ok_def plain_reads_def
      plain_writes_def loop_reads_def loop_targets_def map_of_Cons_code del: map_of.simps
      cong: map_of_key_cong)

text \<open>
  A step that assigns a variable did not raise and is at one of the lines that the table
  lists as assigning it; so a step that reads a variable comes after a completed step at
  one of these lines.
\<close>

lemma event_writes_writers:
  assumes "n \<in> set (event_writes names ev)"
  shows "\<not> raised ev \<and> line ev \<in> set (writers names n)"
proof -
  from assms have r: "\<not> raised ev"
    by (auto simp: event_writes_def split: if_splits)
  from assms r have "n \<in> set (plain_writes names (line ev)) \<or> n \<in> set (loop_targets names (line ev))"
    by (auto simp: event_writes_def split: if_splits)
  then have "line ev \<in> set (writers names n)"
  proof
    assume "n \<in> set (plain_writes names (line ev))"
    then obtain rs ws where "map_of names (line ev) = Some (Assigns rs ws)" "n \<in> set ws"
      by (cases "map_of names (line ev)") (auto simp: plain_writes_def split: flow.splits)
    then have "(line ev, Assigns rs ws) \<in> set names" "n \<in> set ws"
      by (simp_all add: map_of_SomeD)
    then show ?thesis unfolding writers_def by force
  next
    assume "n \<in> set (loop_targets names (line ev))"
    then obtain rs ts where "map_of names (line ev) = Some (Iterates rs ts)" "n \<in> set ts"
      by (cases "map_of names (line ev)") (auto simp: loop_targets_def split: flow.splits)
    then have "(line ev, Iterates rs ts) \<in> set names" "n \<in> set ts"
      by (simp_all add: map_of_SomeD)
    then show ?thesis unfolding writers_def by force
  qed
  with r show ?thesis by simp
qed

lemma read_has_writer:
  assumes "bound_before_read names tr" "j < length tr"
    and "n \<in> set (event_reads names (tr ! j))"
  shows "\<exists>i<j. \<not> raised (tr ! i) \<and> line (tr ! i) \<in> set (writers names n)"
proof -
  from assms obtain i where "i < j" "n \<in> set (event_writes names (tr ! i))"
    unfolding bound_before_read_def list_all_iff list_ex_iff by force
  with event_writes_writers[of n names "tr ! i"] show ?thesis by blast
qed

lemma nth_in_take: "i < n \<Longrightarrow> n \<le> length xs \<Longrightarrow> xs ! i \<in> set (take n xs)"
  by (metis length_take min.absorb2 nth_mem nth_take)

text \<open>
  The order of the stages alone does not give this. The first notebook with its second
  pipeline run backwards (the corrected matrix is plotted and viewed, then it is
  computed, then the time series are extracted) passes the check of the stages; but its
  run plots the corrected matrix at a step before which no step has assigned it.
\<close>

lemma backwards_pipeline_rejected:
  "chk_block {} {}
     (take 52 intro_notebook @
      [Simple 849 [''plt.figure''], Simple 850 [''plotting.plot_matrix''],
       Simple 873 [''plotting.view_connectome''], Simple 848 [''np.fill_diagonal''],
       Simple 846 [''correlation_measure.fit_transform''], Simple 834 [''masker.transform'']]) \<and>
   \<not> bound_before_read intro_names
       (fst (exec_block (\<lambda>k. False) (\<lambda>k. 0)
          (take 52 intro_notebook @
           [Simple 849 [''plt.figure''], Simple 850 [''plotting.plot_matrix''],
            Simple 873 [''plotting.view_connectome''], Simple 848 [''np.fill_diagonal''],
            Simple 846 [''correlation_measure.fit_transform''],
            Simple 834 [''masker.transform'']]) []))"
proof
  show "chk_block {} {}
     (take 52 intro_notebook @
      [Simple 849 [''plt.figure''], Simple 850 [''plotting.plot_matrix''],
       Simple 873 [''plotting.view_connectome''], Simple 848 [''np.fill_diagonal''],
       Simple 846 [''correlation_measure.fit_transform''], Simple 834 [''masker.transform'']])"
    by (simp add: intro_notebook_def stages_def stage_of_def map_filter_def)
next
  let ?tr = "fst (exec_block (\<lambda>k. False) (\<lambda>k. 0)
          (take 52 intro_notebook @
           [Simple 849 [''plt.figure''], Simple 850 [''plotting.plot_matrix''],
            Simple 873 [''plotting.view_connectome''], Simple 848 [''np.fill_diagonal''],
            Simple 846 [''correlation_measure.fit_transform''],
            Simple 834 [''masker.transform'']]) [])"
  let ?ls = "[60, 71, 75, 100, 103, 125, 126, 156, 159, 160, 184, 200, 219, 237, 257,
      286, 289, 290, 346, 348, 349, 369, 385, 387, 388, 433, 435, 436, 467, 468,
      514, 516, 517, 526, 527, 529, 546, 562, 614, 616, 657, 658, 686, 733, 735,
      736, 752, 754, 755, 756, 779, 812, 849, 850, 873, 848, 846, 834] :: nat list"
  have l: "map line ?tr = ?ls"
    by (simp add: intro_notebook_def step_def)
  have e: "?tr ! 53 = \<lparr>line = 850, calls = [''plotting.plot_matrix''], raised = False\<rparr>"
    by (simp add: intro_notebook_def step_def)
  have len: "length ?tr = 58"
    using arg_cong[OF l, of length] by simp
  have rd: "''corrected_correlation_matrix'' \<in> set (event_reads intro_names (?tr ! 53))"
    unfolding e
    by (simp add: event_reads_def plain_reads_def loop_reads_def intro_names_def
        map_of_Cons_code del: map_of.simps cong: map_of_key_cong)
  have w: "writers intro_names ''corrected_correlation_matrix'' = [846]"
    by (simp add: writers_def intro_names_def)
  have no: "846 \<notin> set (take 53 ?ls)"
    by simp
  show "\<not> bound_before_read intro_names ?tr"
  proof
    assume a: "bound_before_read intro_names ?tr"
    from read_has_writer[OF a _ rd] len obtain i where i: "i < 53" "line (?tr ! i) = 846"
      unfolding w by auto
    from i(1) len have a1: "line (?tr ! i) = ?ls ! i"
      using nth_map[of i ?tr line] unfolding l by simp
    from a1[symmetric] i(2) have eq: "?ls ! i = 846" by (rule trans)
    have "53 \<le> length ?ls" by simp
    from nth_in_take[OF i(1) this] have "?ls ! i \<in> set (take 53 ?ls)" .
    then have "846 \<in> set (take 53 ?ls)" unfolding eq .
    with no show False by (rule notE)
  qed
qed

subsection \<open>The pipeline in every run\<close>

text \<open>
  C7, as the code has it. In every run of either notebook, every call of a stage comes
  after a call of the stage before it (fetch, masker, transform, connectivity, use); the
  data is fetched before any other stage and the masker is built and fitted before any
  transform, connectivity computation or use. Every variable that a step reads has been
  assigned by an earlier step of the same run that did not raise. The dataset, the atlas,
  the masker, every list of time series and every connectivity matrix is assigned at one
  line only (\<^verbatim>\<open>pooled_subjects\<close> at lines 157 and 451, the loop variable \<^verbatim>\<open>matrix\<close> by
  the three plotting loops, which read the matrices computed at lines 198, 300 and 385):
  so each time series is extracted before the matrix that is computed from it, and each
  matrix is computed before the step that plots it, views it or gives it to the
  classifier. The last three stages are repeated and interleave.
\<close>

theorem pipeline_order_respected:
  "respects_pipeline (trace_stages (fst (exec_block fails iters intro_notebook []))) \<and>
   respects_pipeline (trace_stages (fst (exec_block fails' iters' classification_notebook []))) \<and>
   bound_before_read intro_names (fst (exec_block fails iters intro_notebook [])) \<and>
   bound_before_read classification_names
     (fst (exec_block fails' iters' classification_notebook [])) \<and>
   map (writers intro_names)
     [''development_dataset'', ''msdl_atlas'', ''masker'', ''roi_time_series'',
      ''correlation_matrix'', ''corrected_roi_time_series'', ''corrected_correlation_matrix'']
     = [[348], [516], [616], [657], [736], [834], [846]] \<and>
   map (writers classification_names)
     [''development_dataset'', ''msdl_atlas'', ''masker'', ''children'', ''adults'',
      ''pooled_subjects'', ''correlation_matrices'', ''mean_correlation_matrix'',
      ''partial_correlation_matrices'', ''tangent_matrices'', ''matrix'', ''connectomes'',
      ''classifier'', ''predictions'']
     = [[82], [83], [86], [155], [156], [157, 451], [198], [231], [300], [385],
        [249, 318, 404], [475], [477], [479]]"
proof -
  have "map (writers intro_names)
     [''development_dataset'', ''msdl_atlas'', ''masker'', ''roi_time_series'',
      ''correlation_matrix'', ''corrected_roi_time_series'', ''corrected_correlation_matrix'']
     = [[348], [516], [616], [657], [736], [834], [846]]"
    by (simp add: writers_def intro_names_def)
  moreover have "map (writers classification_names)
     [''development_dataset'', ''msdl_atlas'', ''masker'', ''children'', ''adults'',
      ''pooled_subjects'', ''correlation_matrices'', ''mean_correlation_matrix'',
      ''partial_correlation_matrices'', ''tangent_matrices'', ''matrix'', ''connectomes'',
      ''classifier'', ''predictions'']
     = [[82], [83], [86], [155], [156], [157, 451], [198], [231], [300], [385],
        [249, 318, 404], [475], [477], [479]]"
    by (simp add: writers_def classification_names_def)
  moreover note in_order_respects[OF checked_run_in_order[OF intro_notebook_checked]]
    in_order_respects[OF checked_run_in_order[OF classification_notebook_checked]]
    checked_run_names[OF intro_names_checked] checked_run_names[OF classification_names_checked]
  ultimately show ?thesis by blast
qed

theorem pipeline_order_respected_witness:
  "trace_stages (fst (exec_block (\<lambda>k. False) (\<lambda>k. 1) intro_notebook [])) =
     [Fetch, Fetch, Masker, Masker, Transform, Connectivity, Use, Use,
      Transform, Connectivity, Use, Use] \<and>
   respects_pipeline
     [Fetch, Fetch, Masker, Masker, Transform, Connectivity, Use, Use,
      Transform, Connectivity, Use, Use] \<and>
   bound_before_read intro_names (fst (exec_block (\<lambda>k. False) (\<lambda>k. 1) intro_notebook [])) \<and>
   bound_before_read classification_names
     (fst (exec_block (\<lambda>k. False) (\<lambda>k. 2) classification_notebook []))"
proof -
  have t: "trace_stages (fst (exec_block (\<lambda>k. False) (\<lambda>k. 1) intro_notebook [])) =
     [Fetch, Fetch, Masker, Masker, Transform, Connectivity, Use, Use,
      Transform, Connectivity, Use, Use]"
    by (simp add: intro_notebook_def step_def trace_stages_def stages_def stage_of_def
        map_filter_def)
  note p = pipeline_order_respected[of "\<lambda>k. False" "\<lambda>k. 1" "\<lambda>k. False" "\<lambda>k. 2"]
  from p[THEN conjunct1]
  have r: "respects_pipeline
     [Fetch, Fetch, Masker, Masker, Transform, Connectivity, Use, Use,
      Transform, Connectivity, Use, Use]"
    unfolding t .
  from p[THEN conjunct2, THEN conjunct2, THEN conjunct1]
  have b1: "bound_before_read intro_names
      (fst (exec_block (\<lambda>k. False) (\<lambda>k. 1) intro_notebook []))" .
  from p[THEN conjunct2, THEN conjunct2, THEN conjunct2, THEN conjunct1]
  have b2: "bound_before_read classification_names
      (fst (exec_block (\<lambda>k. False) (\<lambda>k. 2) classification_notebook []))" .
  from t r b1 b2 show ?thesis by (intro conjI)
qed

text \<open>
  C7, as stated, fails: in the run of the first notebook in which nothing raises, a later
  stage precedes an earlier one (the matrix is plotted at lines 756 and 779, and the images
  are transformed again at line 834).
\<close>

theorem stage_order_counterexample:
  "\<not> never_out_of_order
       (trace_stages (fst (exec_block (\<lambda>k. False) (\<lambda>k. 1) intro_notebook [])))"
proof -
  have t: "trace_stages (fst (exec_block (\<lambda>k. False) (\<lambda>k. 1) intro_notebook [])) =
     [Fetch, Fetch, Masker, Masker, Transform, Connectivity, Use, Use,
      Transform, Connectivity, Use, Use]"
    by (simp add: intro_notebook_def step_def trace_stages_def stages_def stage_of_def
        map_filter_def)
  show ?thesis unfolding t by (simp add: never_out_of_order_def)
qed

end
